theory Spec2Isabelle
  imports Complex_Main
begin

section \<open>Numbers and errors\<close>

text \<open>
  Both functions of the repository compute with numpy double precision numbers
  (float64). A finite number is modelled by the real it denotes, and the three special
  values a numpy float can take are kept: the quotient \<open>0/0\<close> and the root of a
  negative number are \<open>NaN\<close>, a non-zero number divided by zero is an infinity, and
  the optimizer writes \<open>-np.inf\<close> itself.

  The optimizer is modelled in exact arithmetic: rounding is not modelled there. In
  the generator the division of line 48 and the root of line 55 round their exact
  result to the nearest float64 number, as IEEE 754 prescribes for these two
  operations; the sums and dot products of numpy round too, in an order that numpy
  and the linear algebra library behind it choose, and they are parameters of the
  generator's model.
\<close>

datatype npfloat = NaN | NInf | Fin real | PInf

text \<open>The exceptions the two functions can raise.\<close>

datatype py_error =
  NameError | IndexError | ValueError | TypeError | ArithmeticError | OtherError

text \<open>
  A float64 number has a significand of 53 bits. \<open>round_even\<close> rounds to the nearest
  integer, and to the even one of the two on a tie; \<open>fl64 x\<close> is the number of a 53-bit
  significand nearest to \<open>x\<close>. The range of the exponent is not modelled (no overflow,
  no subnormal numbers).
\<close>

definition round_even :: "real \<Rightarrow> int" where
  "round_even y =
     (let f = \<lfloor>y\<rfloor>; r = y - of_int f
      in if r < 1 / 2 then f else if 1 / 2 < r then f + 1
         else if even f then f else f + 1)"

definition fl64 :: "real \<Rightarrow> real" where
  "fl64 x =
     (if x = 0 then 0
      else let e = \<lfloor>log 2 \<bar>x\<bar>\<rfloor> - 52; ulp = 2 powr of_int e
           in of_int (round_even (x / ulp)) * ulp)"

text \<open>
  \<open>x / s\<close> on two finite numbers, as numpy divides: the float64 number nearest to the
  quotient, and no exception on a zero divisor (a warning at most).
\<close>

definition np_div :: "real \<Rightarrow> real \<Rightarrow> npfloat" where
  "np_div x s =
     (if s \<noteq> 0 then Fin (fl64 (x / s))
      else if x = 0 then NaN
      else if 0 < x then PInf else NInf)"

text \<open>
  \<open>np.sqrt\<close>: the float64 number nearest to the root, and \<open>NaN\<close> on a negative
  argument.
\<close>

fun np_sqrt :: "npfloat \<Rightarrow> npfloat" where
  "np_sqrt (Fin x) = (if x < 0 then NaN else Fin (fl64 (sqrt x)))"
| "np_sqrt PInf = PInf"
| "np_sqrt NInf = NaN"
| "np_sqrt NaN = NaN"

text \<open>\<open>a < b\<close> on numpy floats: every comparison with \<open>NaN\<close> is false.\<close>

fun nf_less :: "npfloat \<Rightarrow> npfloat \<Rightarrow> bool" where
  "nf_less NaN _ = False"
| "nf_less _ NaN = False"
| "nf_less (Fin a) (Fin b) = (a < b)"
| "nf_less NInf NInf = False"
| "nf_less NInf _ = True"
| "nf_less _ NInf = False"
| "nf_less PInf _ = False"
| "nf_less _ PInf = True"

text \<open>A numpy array of numbers: its shape and, for a matrix, its entries.\<close>

record ndarray =
  shape :: "nat list"
  entry :: "nat \<Rightarrow> nat \<Rightarrow> real"

text \<open>
  The reductions of numpy that the generator calls: \<open>np.sum\<close> of a vector of finite
  numbers (line 48; the sum of numbers below 1 is finite), \<open>np.dot\<close> of two vectors
  (lines 51 and 55) and \<open>np.dot\<close> of a matrix and a vector (line 55). What they
  return is up to the library, rounding included.
\<close>

record numpy =
  np_sum :: "real list \<Rightarrow> real"
  np_dot :: "npfloat list \<Rightarrow> npfloat list \<Rightarrow> npfloat"
  np_matvec :: "ndarray \<Rightarrow> npfloat list \<Rightarrow> npfloat list"

section \<open>The random portfolio generator (\<open>random_portfolios_gen.py\<close>)\<close>

text \<open>
  \<open>expected_returns\<close> is a labelled \<open>pd.Series\<close> or a plain array; \<open>cov_matrix\<close> is a
  numpy array (a \<open>DataFrame\<close> is replaced by its \<open>.values\<close>).
\<close>

datatype returns_vector = Series "(string \<times> real) list" | Array "real list"

fun er_values :: "returns_vector \<Rightarrow> real list" where
  "er_values (Series kvs) = map snd kvs"
| "er_values (Array vs) = vs"

text \<open>\<open>str(n)\<close> of a natural number.\<close>

fun str_nat :: "nat \<Rightarrow> string" where
  "str_nat n =
     (if n < 10 then [char_of (48 + n)]
      else str_nat (n div 10) @ [char_of (48 + n mod 10)])"

declare str_nat.simps [simp del]

fun asset_names :: "returns_vector \<Rightarrow> string list" where
  "asset_names (Series kvs) = map fst kvs"
| "asset_names (Array vs) = map (\<lambda>i. ''Asset_'' @ str_nat (i + 1)) [0..<length vs]"

text \<open>
  The process-wide random state is a sequence \<open>rng\<close> of numbers of \<open>[0, 1)\<close> and a
  position in it; \<open>np.random.random(k)\<close> at position \<open>pos\<close> reads the next \<open>k\<close>.
\<close>

definition random_draw :: "(nat \<Rightarrow> real) \<Rightarrow> nat \<Rightarrow> nat \<Rightarrow> real list" where
  "random_draw rng pos k = map rng [pos..<pos + k]"

text \<open>
  Lines 46 to 48: \<open>weights /= np.sum(weights)\<close>, with no test of the sum. Every draw is
  divided by the sum that numpy computed.
\<close>

definition normalize_weights :: "numpy \<Rightarrow> real list \<Rightarrow> npfloat list" where
  "normalize_weights lib us = map (\<lambda>u. np_div u (np_sum lib us)) us"

text \<open>Line 51.\<close>

definition portfolio_returns :: "numpy \<Rightarrow> npfloat list \<Rightarrow> real list \<Rightarrow> npfloat" where
  "portfolio_returns lib weights expected_returns =
     np_dot lib weights (map Fin expected_returns)"

text \<open>
  Line 55: \<open>np.sqrt(np.dot(weights.T, np.dot(cov_matrix, weights)))\<close>; the transpose
  of a vector is the vector.
\<close>

definition portfolio_volatility :: "numpy \<Rightarrow> npfloat list \<Rightarrow> ndarray \<Rightarrow> npfloat" where
  "portfolio_volatility lib weights cov_matrix =
     np_sqrt (np_dot lib weights (np_matvec lib cov_matrix weights))"

text \<open>The three lists the loop of lines 44 to 59 appends to.\<close>

record samples =
  port_returns :: "npfloat list"
  port_volatility :: "npfloat list"
  stock_weights :: "npfloat list list"

fun sampling_loop ::
  "numpy \<Rightarrow> (nat \<Rightarrow> real) \<Rightarrow> real list \<Rightarrow> ndarray \<Rightarrow> nat \<Rightarrow> nat \<Rightarrow> samples \<Rightarrow> samples"
where
  "sampling_loop lib rng er cov 0 pos acc = acc"
| "sampling_loop lib rng er cov (Suc m) pos acc =
     (let weights = normalize_weights lib (random_draw rng pos (length er));
          returns = portfolio_returns lib weights er;
          volatility = portfolio_volatility lib weights cov
      in sampling_loop lib rng er cov m (pos + length er)
           \<lparr>port_returns = port_returns acc @ [returns],
            port_volatility = port_volatility acc @ [volatility],
            stock_weights = stock_weights acc @ [weights]\<rparr>)"

text \<open>
  Lines 67 to 70. \<open>np.array(stock_weights).T\<close> of no sample at all has shape \<open>(0,)\<close>, and
  indexing it raises \<open>IndexError\<close>; of \<open>n \<ge> 1\<close> weight vectors it has one row per
  asset. The dictionary \<open>portfolio\<close> is a map from column names.
\<close>

fun add_weight_columns ::
  "npfloat list list \<Rightarrow> (nat \<times> string) list \<Rightarrow> (string \<rightharpoonup> npfloat list)
   \<Rightarrow> py_error + (string \<rightharpoonup> npfloat list)" where
  "add_weight_columns sw [] portfolio = Inr portfolio"
| "add_weight_columns sw ((i, asset_name) # rest) portfolio =
     (if sw = [] then Inl IndexError
      else add_weight_columns sw rest
             (portfolio(asset_name @ ''Weight'' \<mapsto> map (\<lambda>w. w ! i) sw)))"

text \<open>A data frame read column by column: the names in order, each with its values.\<close>

type_synonym table = "(string \<times> npfloat list) list"

text \<open>
  \<open>return_portfolios\<close>. The module never imports \<open>sys\<close>, so on a shape mismatch the
  evaluation of \<open>sys.stderr\<close> at line 33 raises \<open>NameError\<close> before anything is printed
  and before line 34 returns \<open>None\<close>. \<open>range(num_portfolios)\<close> is empty for a
  non-positive count.
\<close>

definition return_portfolios ::
  "numpy \<Rightarrow> (nat \<Rightarrow> real) \<Rightarrow> returns_vector \<Rightarrow> ndarray \<Rightarrow> int \<Rightarrow> py_error + table" where
  "return_portfolios lib rng expected_returns cov_matrix num_portfolios =
     (let names = asset_names expected_returns;
          er = er_values expected_returns;
          num_assets = length er
      in if shape cov_matrix \<noteq> [num_assets, num_assets] then Inl NameError
         else
           let s = sampling_loop lib rng er cov_matrix (nat num_portfolios) 0
                     \<lparr>port_returns = [], port_volatility = [], stock_weights = []\<rparr>;
               portfolio = [''Returns'' \<mapsto> port_returns s,
                            ''Volatility'' \<mapsto> port_volatility s]
           in case add_weight_columns (stock_weights s) (enumerate 0 names) portfolio of
                Inl e \<Rightarrow> Inl e
              | Inr portfolio' \<Rightarrow>
                  let weight_cols = map (\<lambda>asset. asset @ ''Weight'') names;
                      column_order = [''Returns'', ''Volatility''] @ weight_cols
                  in Inr (map (\<lambda>c. (c, the (portfolio' c))) column_order))"

section \<open>The efficient-frontier optimizer (\<open>portfolio_optimization_utils.py\<close>)\<close>

subsection \<open>The return table, its mean and covariance\<close>

text \<open>
  \<open>returns_df\<close>: the column labels and the observation rows, each row with one number
  per column. \<open>len(returns_df)\<close> counts the rows; \<open>returns_df.empty\<close> holds when
  there is no row or no column.
\<close>

record dataframe =
  columns :: "string list"
  observations :: "real list list"

definition df_len :: "dataframe \<Rightarrow> nat" where
  "df_len df = length (observations df)"

definition df_empty :: "dataframe \<Rightarrow> bool" where
  "df_empty df = (observations df = [] \<or> columns df = [])"

text \<open>\<open>returns_df.mean().values\<close>: the arithmetic mean of each column.\<close>

definition df_mean :: "dataframe \<Rightarrow> real list" where
  "df_mean df =
     map (\<lambda>j. sum_list (map (\<lambda>r. r ! j) (observations df)) / real (df_len df))
       [0..<length (columns df)]"

text \<open>\<open>returns_df.cov().values\<close>: the sample covariance, normalised by \<open>N - 1\<close>.\<close>

definition df_cov :: "dataframe \<Rightarrow> real list list" where
  "df_cov df =
     (let m = df_mean df; k = length (columns df)
      in map (\<lambda>i. map (\<lambda>j.
              sum_list (map (\<lambda>r. (r ! i - m ! i) * (r ! j - m ! j)) (observations df))
                / (real (df_len df) - 1)) [0..<k]) [0..<k])"

subsection \<open>Weight bounds\<close>

text \<open>
  \<open>weight_bounds\<close> is a tuple of numbers, a list of number sequences, or any other
  object (\<open>None\<close>, a dictionary, a number).
\<close>

datatype bounds_arg = BTuple "real list" | BList "real list list" | BOther

text \<open>
  Lines 61 to 63: each element of the list is unpacked into \<open>(min_w, max_w)\<close>, which
  raises \<open>ValueError\<close> on an element that has not two entries.
\<close>

fun unpack_bounds :: "real list list \<Rightarrow> py_error + (real list \<times> real list)" where
  "unpack_bounds [] = Inr ([], [])"
| "unpack_bounds ([min_w, max_w] # rest) =
     (case unpack_bounds rest of
        Inl e \<Rightarrow> Inl e
      | Inr (mins, maxs) \<Rightarrow> Inr (min_w # mins, max_w # maxs))"
| "unpack_bounds (_ # rest) = Inl ValueError"

record limits =
  warnings :: "string list"
  min_weights :: "real list"
  max_weights :: "real list"

definition default_limits :: "nat \<Rightarrow> limits" where
  "default_limits num_assets =
     \<lparr>warnings = [''Warning: Invalid weight_bounds format. Using default (0.0, 1.0) for all assets.''],
      min_weights = replicate num_assets 0,
      max_weights = replicate num_assets 1\<rparr>"

text \<open>Lines 52 to 68.\<close>

fun weight_limits :: "bounds_arg \<Rightarrow> nat \<Rightarrow> py_error + limits" where
  "weight_limits (BTuple ws) num_assets =
     (if length ws = 2
      then Inr \<lparr>warnings = [], min_weights = replicate num_assets (ws ! 0),
                max_weights = replicate num_assets (ws ! 1)\<rparr>
      else Inr (default_limits num_assets))"
| "weight_limits (BList ps) num_assets =
     (if length ps = num_assets
      then (case unpack_bounds ps of
              Inl e \<Rightarrow> Inl e
            | Inr (mins, maxs) \<Rightarrow> Inr \<lparr>warnings = [], min_weights = mins, max_weights = maxs\<rparr>)
      else Inr (default_limits num_assets))"
| "weight_limits BOther num_assets = Inr (default_limits num_assets)"

subsection \<open>The quadratic programs and the solver\<close>

text \<open>
  The solver is the external collaborator: it receives the six matrices of
  \<open>solvers.qp(P, q, G, h, A_qp, b_qp)\<close> and either returns a status and a vector
  \<open>x\<close> or raises.
\<close>

record qp =
  qp_P :: "real list list"
  qp_q :: "real list"
  qp_G :: "real list list"
  qp_h :: "real list"
  qp_A :: "real list list"
  qp_b :: "real list"

datatype solver_result = Solution string "real list" | Raises py_error

type_synonym solver = "qp \<Rightarrow> solver_result"

definition eye :: "nat \<Rightarrow> real list list" where
  "eye n = map (\<lambda>i. map (\<lambda>j. if i = j then 1 else 0) [0..<n]) [0..<n]"

text \<open>Lines 35 to 43, 71, 72 and 97 to 102: the program of one target return.\<close>

definition target_qp :: "real list list \<Rightarrow> real list \<Rightarrow> limits \<Rightarrow> real \<Rightarrow> qp" where
  "target_qp sigma mu bnd r_target =
     (let num_assets = length mu
      in \<lparr>qp_P = sigma,
          qp_q = replicate num_assets 0,
          qp_G = map (map uminus) (eye num_assets) @ eye num_assets,
          qp_h = map uminus (min_weights bnd) @ max_weights bnd,
          qp_A = [replicate num_assets 1, mu],
          qp_b = [1, r_target]\<rparr>)"

text \<open>\<open>np.linspace(start, stop, num)\<close>.\<close>

definition linspace :: "real \<Rightarrow> real \<Rightarrow> nat \<Rightarrow> real list" where
  "linspace start stop num =
     map (\<lambda>i. start + real i * ((stop - start) / real (num - 1))) [0..<num]"

subsection \<open>One frontier point\<close>

definition dot :: "real list \<Rightarrow> real list \<Rightarrow> real" where
  "dot xs ys = sum_list (map2 (*) xs ys)"

definition quad_form :: "real list list \<Rightarrow> real list \<Rightarrow> real" where
  "quad_form sigma w = dot w (map (\<lambda>row. dot row w) sigma)"

text \<open>Line 110: the division is behind the test \<open>portfolio_risk > 0\<close>.\<close>

definition sharpe_of :: "real \<Rightarrow> real \<Rightarrow> real \<Rightarrow> npfloat" where
  "sharpe_of portfolio_return risk_free_rate portfolio_risk =
     (if portfolio_risk > 0
      then Fin ((portfolio_return - risk_free_rate) / portfolio_risk)
      else NInf)"

text \<open>A dictionary comprehension: a later pair overwrites an earlier one of the same key.\<close>

definition dict_of :: "(string \<times> 'v) list \<Rightarrow> (string \<rightharpoonup> 'v)" where
  "dict_of kvs = foldl (\<lambda>m (k, v). m(k \<mapsto> v)) Map.empty kvs"

text \<open>
  A row of the frontier (the dictionary of lines 112 to 117, its weights under the
  keys \<open>weight_<column>\<close>) and a distinguished portfolio (lines 121 to 126).
\<close>

record frontier_row =
  fr_return :: real
  fr_risk :: real
  fr_sharpe :: npfloat
  fr_weights :: "string \<rightharpoonup> real"

record portfolio =
  pf_weights :: "string \<rightharpoonup> real"
  pf_return :: real
  pf_risk :: real
  pf_sharpe :: npfloat

record sweep_state =
  efficient_frontier :: "frontier_row list"
  max_sharpe_portfolio :: "portfolio option"
  max_sharpe_ratio :: npfloat

text \<open>
  Lines 107 to 117, for a solution vector of \<open>num_assets\<close> entries, in exact
  arithmetic. There the risk is the root of a quadratic form of the sample covariance,
  which is never negative (lemma \<open>quad_form_cov_nonneg\<close> below), so \<open>np.sqrt\<close> is the
  real root. In float64 the computed form differs from the exact one by rounding, and
  where the exact form is zero the computed one can be a small number of either
  sign; this is not modelled.
\<close>

definition frontier_point ::
  "string list \<Rightarrow> real list \<Rightarrow> real list list \<Rightarrow> real \<Rightarrow> real list \<Rightarrow> frontier_row" where
  "frontier_point cols mu sigma risk_free_rate ws =
     (let portfolio_return = dot ws mu;
          portfolio_risk = sqrt (quad_form sigma ws);
          sharpe_ratio = sharpe_of portfolio_return risk_free_rate portfolio_risk
      in \<lparr>fr_return = portfolio_return, fr_risk = portfolio_risk,
          fr_sharpe = sharpe_ratio,
          fr_weights = dict_of (map (\<lambda>(i, w). (''weight_'' @ cols ! i, w)) (enumerate 0 ws))\<rparr>)"

text \<open>Lines 112 to 126: the point is appended, and tracked when its Sharpe ratio is greater.\<close>

definition record_solution ::
  "string list \<Rightarrow> real list \<Rightarrow> real list list \<Rightarrow> real \<Rightarrow> real list \<Rightarrow> sweep_state \<Rightarrow> sweep_state"
where
  "record_solution cols mu sigma risk_free_rate ws st =
     (let row = frontier_point cols mu sigma risk_free_rate ws;
          st' = st\<lparr>efficient_frontier := efficient_frontier st @ [row]\<rparr>
      in if nf_less (max_sharpe_ratio st) (fr_sharpe row)
         then st'\<lparr>max_sharpe_ratio := fr_sharpe row,
                  max_sharpe_portfolio := Some
                    \<lparr>pf_weights = dict_of (map (\<lambda>(i, w). (cols ! i, w)) (enumerate 0 ws)),
                     pf_return = fr_return row, pf_risk = fr_risk row,
                     pf_sharpe = fr_sharpe row\<rparr>\<rparr>
         else st')"

text \<open>
  Lines 104 to 130: one target return. A \<open>ValueError\<close> of the solver is swallowed, any
  other exception leaves the function; a status other than \<open>optimal\<close> is skipped; and
  a solution of another length than \<open>mu\<close> makes \<open>np.dot(weights, mu)\<close> raise
  \<open>ValueError\<close> inside the \<open>try\<close>, which is swallowed too.
\<close>

definition solve_target ::
  "solver \<Rightarrow> string list \<Rightarrow> real list \<Rightarrow> real list list \<Rightarrow> limits \<Rightarrow> real \<Rightarrow> real
   \<Rightarrow> sweep_state \<Rightarrow> py_error + sweep_state" where
  "solve_target solve cols mu sigma bnd risk_free_rate r_target st =
     (case solve (target_qp sigma mu bnd r_target) of
        Raises e \<Rightarrow> if e = ValueError then Inr st else Inl e
      | Solution status x \<Rightarrow>
          if status = ''optimal''
          then (if length x = length mu
                then Inr (record_solution cols mu sigma risk_free_rate x st)
                else Inr st)
          else Inr st)"

fun sweep ::
  "solver \<Rightarrow> string list \<Rightarrow> real list \<Rightarrow> real list list \<Rightarrow> limits \<Rightarrow> real \<Rightarrow> real list
   \<Rightarrow> sweep_state \<Rightarrow> py_error + sweep_state" where
  "sweep solve cols mu sigma bnd risk_free_rate [] st = Inr st"
| "sweep solve cols mu sigma bnd risk_free_rate (r_target # rest) st =
     (case solve_target solve cols mu sigma bnd risk_free_rate r_target st of
        Inl e \<Rightarrow> Inl e
      | Inr st' \<Rightarrow> sweep solve cols mu sigma bnd risk_free_rate rest st')"

subsection \<open>The distinguished portfolios and the result\<close>

text \<open>
  \<open>Series.idxmin\<close> on the frontier's default index: the position of the first least
  value.
\<close>

definition idxmin :: "real list \<Rightarrow> nat" where
  "idxmin xs = length (takeWhile (\<lambda>x. x \<noteq> Min (set xs)) xs)"

text \<open>
  \<open>Series.idxmax\<close>: \<open>NaN\<close> entries count as \<open>-inf\<close>, the position of the first
  greatest value is returned, and a column of nothing but \<open>NaN\<close> has none.
\<close>

definition fill_nan :: "npfloat \<Rightarrow> npfloat" where
  "fill_nan x = (if x = NaN then NInf else x)"

definition nf_max :: "npfloat \<Rightarrow> npfloat \<Rightarrow> npfloat" where
  "nf_max a b = (if nf_less a b then b else a)"

definition idxmax :: "npfloat list \<Rightarrow> py_error + nat" where
  "idxmax xs =
     (if xs = [] \<or> list_all (\<lambda>x. x = NaN) xs then Inl ValueError
      else let ys = map fill_nan xs; m = foldl nf_max (hd ys) (tl ys)
           in Inr (length (takeWhile (\<lambda>y. y \<noteq> m) ys)))"

text \<open>
  Lines 141 to 146 and 152 to 157: a portfolio read back from a row of the frontier
  table. Every row of the table has every \<open>weight_<column>\<close> key (lemma
  \<open>row_has_weight_keys\<close> below).
\<close>

definition portfolio_of_row :: "string list \<Rightarrow> frontier_row \<Rightarrow> portfolio" where
  "portfolio_of_row cols row =
     \<lparr>pf_weights = dict_of (map (\<lambda>c. (c, the (fr_weights row (''weight_'' @ c)))) cols),
      pf_return = fr_return row, pf_risk = fr_risk row, pf_sharpe = fr_sharpe row\<rparr>"

record optimize_result =
  res_efficient_frontier :: "frontier_row list"
  res_max_sharpe_portfolio :: "portfolio option"
  res_min_variance_portfolio :: "portfolio option"

text \<open>What a call printed, and what it returned (\<open>None\<close> or the result dictionary).\<close>

record outcome =
  printed :: "string list"
  returned :: "optimize_result option"

text \<open>Lines 133 to 164, after the sweep.\<close>

definition assemble_result :: "string list \<Rightarrow> string list \<Rightarrow> sweep_state \<Rightarrow> py_error + outcome" where
  "assemble_result cols out st =
     (let efficient_frontier_df = efficient_frontier st;
          min_variance_portfolio =
            (if efficient_frontier_df \<noteq> []
             then Some (portfolio_of_row cols
                    (efficient_frontier_df ! idxmin (map fr_risk efficient_frontier_df)))
             else None)
      in if max_sharpe_portfolio st = None \<and> efficient_frontier_df \<noteq> []
         then (case idxmax (map fr_sharpe efficient_frontier_df) of
                 Inl e \<Rightarrow> Inl e
               | Inr i \<Rightarrow>
                   Inr \<lparr>printed = out,
                        returned = Some
                          \<lparr>res_efficient_frontier = efficient_frontier_df,
                           res_max_sharpe_portfolio =
                             Some (portfolio_of_row cols (efficient_frontier_df ! i)),
                           res_min_variance_portfolio = min_variance_portfolio\<rparr>\<rparr>)
         else Inr \<lparr>printed = out,
                   returned = Some
                     \<lparr>res_efficient_frontier = efficient_frontier_df,
                      res_max_sharpe_portfolio = max_sharpe_portfolio st,
                      res_min_variance_portfolio = min_variance_portfolio\<rparr>\<rparr>)"

text \<open>Lines 81 to 86.\<close>

definition target_returns :: "real list \<Rightarrow> real list" where
  "target_returns mu =
     (let min_return = Min (set mu);
          max_return = Max (set mu);
          num_target_returns = 100
      in linspace min_return max_return num_target_returns)"

definition initial_state :: sweep_state where
  "initial_state =
     \<lparr>efficient_frontier = [], max_sharpe_portfolio = None, max_sharpe_ratio = NInf\<rparr>"

definition optimize_portfolio ::
  "solver \<Rightarrow> dataframe \<Rightarrow> real \<Rightarrow> bounds_arg \<Rightarrow> py_error + outcome" where
  "optimize_portfolio solve returns_df risk_free_rate weight_bounds =
     (if df_empty returns_df \<or> df_len returns_df < 2
      then Inr \<lparr>printed = [''Error: Not enough data for portfolio optimization.''],
                returned = None\<rparr>
      else
        let mu = df_mean returns_df;
            sigma = df_cov returns_df;
            num_assets = length mu
        in (case weight_limits weight_bounds num_assets of
              Inl e \<Rightarrow> Inl e
            | Inr bnd \<Rightarrow>
                (case sweep solve (columns returns_df) mu sigma bnd risk_free_rate
                        (target_returns mu) initial_state of
                   Inl e \<Rightarrow> Inl e
                 | Inr st \<Rightarrow> assemble_result (columns returns_df) (warnings bnd) st)))"

section \<open>Notions the properties are stated with\<close>

text \<open>
  The frontier row a target return contributes, if any: the solver's answer has status
  \<open>optimal\<close> and a vector of one entry per asset.
\<close>

definition point_for ::
  "solver \<Rightarrow> string list \<Rightarrow> real list \<Rightarrow> real list list \<Rightarrow> limits \<Rightarrow> real \<Rightarrow> real
   \<Rightarrow> frontier_row option" where
  "point_for solve cols mu sigma bnd risk_free_rate r_target =
     (case solve (target_qp sigma mu bnd r_target) of
        Raises e \<Rightarrow> None
      | Solution status x \<Rightarrow>
          if status = ''optimal'' \<and> length x = length mu
          then Some (frontier_point cols mu sigma risk_free_rate x)
          else None)"

text \<open>The solver raises nothing but \<open>ValueError\<close>.\<close>

definition raises_only_ValueError :: "solver \<Rightarrow> bool" where
  "raises_only_ValueError solve = (\<forall>p e. solve p = Raises e \<longrightarrow> e = ValueError)"

text \<open>
  Bounds that are neither a pair \<open>(min, max)\<close> nor a list of one element per asset.
\<close>

fun malformed_bounds :: "bounds_arg \<Rightarrow> nat \<Rightarrow> bool" where
  "malformed_bounds (BTuple ws) num_assets = (length ws \<noteq> 2)"
| "malformed_bounds (BList ps) num_assets = (length ps \<noteq> num_assets)"
| "malformed_bounds BOther num_assets = True"

text \<open>The input check of line 23.\<close>

definition insufficient_data :: "dataframe \<Rightarrow> bool" where
  "insufficient_data df = (df_empty df \<or> df_len df < 2)"

text \<open>The draw of the \<open>t\<close>-th sampled portfolio over \<open>k\<close> assets.\<close>

definition draw_of :: "(nat \<Rightarrow> real) \<Rightarrow> nat \<Rightarrow> nat \<Rightarrow> real list" where
  "draw_of rng k t = random_draw rng (t * k) k"

text \<open>Row \<open>t\<close> of a table, and the first two and the remaining entries of it.\<close>

definition table_row :: "table \<Rightarrow> nat \<Rightarrow> npfloat list" where
  "table_row tbl t = map (\<lambda>(c, col). col ! t) tbl"

text \<open>
  What the sweep maintains: every Sharpe ratio of the frontier is finite or \<open>-inf\<close>;
  while nothing is tracked the running maximum is \<open>-inf\<close> and so is every ratio of the
  frontier; and a tracked portfolio is the first frontier row of the greatest ratio.
\<close>

definition tracking_inv :: "string list \<Rightarrow> sweep_state \<Rightarrow> bool" where
  "tracking_inv cols st =
     (let fr = efficient_frontier st
      in (\<forall>row\<in>set fr. fr_sharpe row = NInf \<or> (\<exists>v. fr_sharpe row = Fin v)) \<and>
         (case max_sharpe_portfolio st of
            None \<Rightarrow> max_sharpe_ratio st = NInf \<and> (\<forall>row\<in>set fr. fr_sharpe row = NInf)
          | Some p \<Rightarrow>
              (\<exists>i<length fr. p = portfolio_of_row cols (fr ! i) \<and>
                 max_sharpe_ratio st = fr_sharpe (fr ! i) \<and>
                 (\<forall>j<length fr. \<not> nf_less (fr_sharpe (fr ! i)) (fr_sharpe (fr ! j))) \<and>
                 (\<forall>j<i. nf_less (fr_sharpe (fr ! j)) (fr_sharpe (fr ! i))))))"





subsection \<open>A library for the examples\<close>

text \<open>
  The reductions as plain loops of float64 operations: every product and every sum is
  rounded (the special values as numpy propagates them), and the numbers are added
  from left to right. On numbers whose products and partial sums need no rounding,
  numpy returns the same in whatever order it adds.
\<close>

definition inf_of_sign :: "real \<Rightarrow> npfloat" where
  "inf_of_sign a = (if 0 < a then PInf else if a < 0 then NInf else NaN)"

fun nf_add :: "npfloat \<Rightarrow> npfloat \<Rightarrow> npfloat" where
  "nf_add (Fin a) (Fin b) = Fin (fl64 (a + b))"
| "nf_add NaN _ = NaN"
| "nf_add _ NaN = NaN"
| "nf_add PInf NInf = NaN"
| "nf_add NInf PInf = NaN"
| "nf_add PInf _ = PInf"
| "nf_add _ PInf = PInf"
| "nf_add NInf _ = NInf"
| "nf_add _ NInf = NInf"

fun nf_mul :: "npfloat \<Rightarrow> npfloat \<Rightarrow> npfloat" where
  "nf_mul (Fin a) (Fin b) = Fin (fl64 (a * b))"
| "nf_mul NaN _ = NaN"
| "nf_mul _ NaN = NaN"
| "nf_mul PInf (Fin b) = inf_of_sign b"
| "nf_mul NInf (Fin b) = inf_of_sign (- b)"
| "nf_mul (Fin a) PInf = inf_of_sign a"
| "nf_mul (Fin a) NInf = inf_of_sign (- a)"
| "nf_mul PInf PInf = PInf"
| "nf_mul NInf NInf = PInf"
| "nf_mul PInf NInf = NInf"
| "nf_mul NInf PInf = NInf"

definition loop_sum :: "real list \<Rightarrow> real" where
  "loop_sum us = foldl (\<lambda>a u. fl64 (a + u)) 0 us"

definition loop_dot :: "npfloat list \<Rightarrow> npfloat list \<Rightarrow> npfloat" where
  "loop_dot xs ys = foldl (\<lambda>a (x, y). nf_add a (nf_mul x y)) (Fin 0) (zip xs ys)"

definition loop_matvec :: "ndarray \<Rightarrow> npfloat list \<Rightarrow> npfloat list" where
  "loop_matvec a v =
     map (\<lambda>i. loop_dot (map (\<lambda>j. Fin (entry a i j)) [0..<length v]) v) [0..<length v]"

definition loop_numpy :: numpy where
  "loop_numpy = \<lparr>np_sum = loop_sum, np_dot = loop_dot, np_matvec = loop_matvec\<rparr>"

subsection \<open>Example inputs\<close>

text \<open>
  The two-asset return table of the specification's scenario, and two solvers: one
  that answers every program with the equal split (which is the minimum-variance
  portfolio of that table, of risk zero), one that finds every program infeasible.
\<close>

definition two_asset_table :: dataframe where
  "two_asset_table =
     \<lparr>columns = [''A'', ''B''],
      observations = [[1 / 100, 2 / 100], [2 / 100, 1 / 100], [15 / 1000, 15 / 1000]]\<rparr>"

definition equal_split_solver :: solver where
  "equal_split_solver p = Solution ''optimal'' [1 / 2, 1 / 2]"

definition infeasible_solver :: solver where
  "infeasible_solver p = Raises ValueError"




text \<open>
  Draws of the generator: the numbers \<open>1/16\<close>, \<open>1/4\<close>, \<open>1/16\<close>, \<open>1/16\<close>, \<open>\<dots>\<close>, which
  are float64 numbers, as are the sums of the first three in any order.
\<close>

definition sixteenths :: "nat \<Rightarrow> real" where
  "sixteenths i = (if i = 1 then 1 / 4 else 1 / 16)"

section \<open>Rounding to float64\<close>

lemma round_even_err: "\<bar>of_int (round_even y) - y\<bar> \<le> 1 / 2"
  unfolding round_even_def Let_def by (auto; linarith)

lemma round_even_nonneg: "0 \<le> y \<Longrightarrow> 0 \<le> round_even y"
  unfolding round_even_def Let_def by (auto; linarith)

lemma round_even_of_int: "round_even (of_int m) = m"
  unfolding round_even_def Let_def by simp

lemma fl64_zero: "fl64 0 = 0"
  by (simp add: fl64_def)

lemma fl64_nonneg: "0 \<le> x \<Longrightarrow> 0 \<le> fl64 x"
  unfolding fl64_def Let_def
  by (auto intro!: mult_nonneg_nonneg round_even_nonneg divide_nonneg_nonneg)

text \<open>Rounding changes a number by at most the fraction \<open>2\<^sup>-\<^sup>5\<^sup>3\<close> of it.\<close>

lemma fl64_rel_err: "\<bar>fl64 x - x\<bar> \<le> \<bar>x\<bar> / 2 ^ 53"
proof (cases "x = 0")
  case True
  then show ?thesis by (simp add: fl64_def)
next
  case False
  define L where "L = \<lfloor>log 2 \<bar>x\<bar>\<rfloor>"
  define p :: real where "p = 2 powr of_int (L - 52)"
  have p0: "0 < p" by (simp add: p_def)
  have fl: "fl64 x = of_int (round_even (x / p)) * p"
    using False by (simp add: fl64_def Let_def L_def p_def)
  have "fl64 x - x = (of_int (round_even (x / p)) - x / p) * p"
    using p0 by (simp add: fl algebra_simps)
  then have "\<bar>fl64 x - x\<bar> = \<bar>of_int (round_even (x / p)) - x / p\<bar> * p"
    using p0 by (simp add: abs_mult)
  also have "\<dots> \<le> 1 / 2 * p"
    using round_even_err [of "x / p"] p0 by (intro mult_right_mono) simp_all
  also have "\<dots> = 2 powr (of_int L - 53)"
    by (simp add: p_def powr_diff)
  also have "\<dots> \<le> 2 powr (log 2 \<bar>x\<bar> - 53)"
    by (simp add: L_def)
  also have "\<dots> = \<bar>x\<bar> / 2 ^ 53"
    using False by (simp add: powr_diff powr_realpow [symmetric])
  finally show ?thesis .
qed

text \<open>The value of \<open>fl64\<close> at a number of \<open>[2\<^sup>5\<^sup>2 / 2\<^sup>n, 2\<^sup>5\<^sup>3 / 2\<^sup>n)\<close>.\<close>

lemma fl64_at:
  assumes "0 < x" "2 ^ 52 \<le> x * 2 ^ n" "x * 2 ^ n < 2 ^ 53"
  shows "fl64 x = of_int (round_even (x * 2 ^ n)) / 2 ^ n"
proof -
  have a: "2 powr (of_int (52 - int n)) \<le> x"
    using assms(2) by (simp add: powr_diff powr_realpow [symmetric] field_simps)
  have b: "x < 2 powr (of_int (52 - int n) + 1)"
    using assms(3) by (simp add: powr_diff powr_add powr_realpow [symmetric] field_simps)
  have "\<lfloor>log 2 x\<rfloor> = 52 - int n"
    using a b assms(1) by (subst floor_log_eq_powr_iff) simp_all
  then have e: "\<lfloor>log 2 \<bar>x\<bar>\<rfloor> - 52 = - int n" using assms(1) by simp
  have p: "2 powr of_int (- int n) = 1 / (2::real) ^ n"
    by (simp add: powr_minus powr_realpow [symmetric] divide_simps)
  show ?thesis
    using assms(1) unfolding fl64_def Let_def e p by simp
qed

text \<open>Numbers of a significand of at most 53 bits are not changed.\<close>

lemma fl64_exact:
  assumes "0 < x" "2 ^ 52 \<le> x * 2 ^ n" "x * 2 ^ n < 2 ^ 53" "x * 2 ^ n = of_int m"
  shows "fl64 x = x"
proof -
  have "fl64 x = of_int (round_even (x * 2 ^ n)) / 2 ^ n"
    using assms(1,2,3) by (rule fl64_at)
  also have "\<dots> = of_int m / 2 ^ n"
    unfolding assms(4) round_even_of_int ..
  also have "\<dots> = x"
    using assms(4) [symmetric] by simp
  finally show ?thesis .
qed

lemma fl64_values:
  "fl64 (1 / 16) = 1 / 16" "fl64 (1 / 4) = 1 / 4" "fl64 (5 / 16) = 5 / 16"
  "fl64 (3 / 8) = 3 / 8" "fl64 (3 / 4) = 3 / 4" "fl64 1 = 1"
  "fl64 (3 / 2) = 3 / 2" "fl64 (7 / 4) = 7 / 4"
proof -
  show "fl64 (1 / 16) = 1 / 16"
    by (rule fl64_exact [where n = 56 and m = "2 ^ 52"]) simp_all
  show "fl64 (1 / 4) = 1 / 4"
    by (rule fl64_exact [where n = 54 and m = "2 ^ 52"]) simp_all
  show "fl64 (5 / 16) = 5 / 16"
    by (rule fl64_exact [where n = 54 and m = "5 * 2 ^ 50"]) simp_all
  show "fl64 (3 / 8) = 3 / 8"
    by (rule fl64_exact [where n = 54 and m = "3 * 2 ^ 51"]) simp_all
  show "fl64 (3 / 4) = 3 / 4"
    by (rule fl64_exact [where n = 53 and m = "3 * 2 ^ 51"]) simp_all
  show "fl64 1 = 1"
    by (rule fl64_exact [where n = 52 and m = "2 ^ 52"]) simp_all
  show "fl64 (3 / 2) = 3 / 2"
    by (rule fl64_exact [where n = 52 and m = "3 * 2 ^ 51"]) simp_all
  show "fl64 (7 / 4) = 7 / 4"
    by (rule fl64_exact [where n = 52 and m = "7 * 2 ^ 50"]) simp_all
qed

lemma fl64_sixth: "fl64 (1 / 6) = 6004799503160661 / 2 ^ 55"
proof -
  have "fl64 (1 / 6) = of_int (round_even (1 / 6 * 2 ^ 55)) / 2 ^ 55"
    by (rule fl64_at) simp_all
  moreover have "round_even (1 / 6 * 2 ^ 55) = 6004799503160661"
    by (simp add: round_even_def Let_def)
  ultimately show ?thesis by simp
qed

lemma fl64_two_thirds: "fl64 (2 / 3) = 6004799503160661 / 2 ^ 53"
proof -
  have "fl64 (2 / 3) = of_int (round_even (2 / 3 * 2 ^ 53)) / 2 ^ 53"
    by (rule fl64_at) simp_all
  moreover have "round_even (2 / 3 * 2 ^ 53) = 6004799503160661"
    by (simp add: round_even_def Let_def)
  ultimately show ?thesis by simp
qed

lemma fl64_bounds:
  assumes "0 \<le> y"
  shows "(1 - 1 / 2 ^ 53) * y \<le> fl64 y" "fl64 y \<le> (1 + 1 / 2 ^ 53) * y"
proof -
  have "\<bar>fl64 y - y\<bar> \<le> y / 2 ^ 53"
    using fl64_rel_err [of y] assms by simp
  then have e: "y - y / 2 ^ 53 \<le> fl64 y" "fl64 y \<le> y + y / 2 ^ 53"
    by linarith+
  show "(1 - 1 / 2 ^ 53) * y \<le> fl64 y"
    using e(1) by (simp only: left_diff_distrib mult_1 times_divide_eq_left)
  show "fl64 y \<le> (1 + 1 / 2 ^ 53) * y"
    using e(2) by (simp only: distrib_right mult_1 times_divide_eq_left)
qed

text \<open>
  A loop of \<open>k\<close> rounded additions of non-negative numbers is within the relative
  error \<open>(1 + 2\<^sup>-\<^sup>5\<^sup>3)\<^sup>k - 1\<close> of the exact sum.
\<close>

lemma loop_sum_bounds:
  fixes us :: "real list" and lo hi :: real
  assumes "\<forall>u\<in>set us. 0 \<le> u" and "0 \<le> A"
    and lo: "lo = 1 - 1 / 2 ^ 53" and hi: "hi = 1 + 1 / 2 ^ 53"
    and "lo ^ j * A \<le> a" "a \<le> hi ^ j * A"
  shows "lo ^ (j + length us) * (A + sum_list us) \<le> foldl (\<lambda>a u. fl64 (a + u)) a us \<and>
         foldl (\<lambda>a u. fl64 (a + u)) a us \<le> hi ^ (j + length us) * (A + sum_list us)"
  using assms
proof (induction us arbitrary: a A j)
  case Nil
  then show ?case by simp
next
  case (Cons x xs)
  have x0: "0 \<le> x" using Cons.prems(1) by simp
  have lo0: "0 \<le> lo" "lo \<le> 1" by (simp_all add: lo)
  have hi1: "1 \<le> hi" by (simp add: hi)
  have loj: "0 \<le> lo ^ j" "lo ^ j \<le> 1"
    using lo0 by (simp_all add: power_le_one)
  have hij: "1 \<le> hi ^ j" using hi1 by (rule one_le_power)
  have a0: "0 \<le> a"
    using Cons.prems(5) loj(1) Cons.prems(2) by (meson mult_nonneg_nonneg order_trans)
  have ax: "0 \<le> a + x" using a0 x0 by simp
  have l1: "lo ^ j * (A + x) \<le> a + x"
  proof -
    have "lo ^ j * x \<le> 1 * x" using loj(2) x0 by (rule mult_right_mono)
    with Cons.prems(5) show ?thesis by (simp add: algebra_simps)
  qed
  have h1: "a + x \<le> hi ^ j * (A + x)"
  proof -
    have "1 * x \<le> hi ^ j * x" using hij x0 by (rule mult_right_mono)
    with Cons.prems(6) show ?thesis by (simp add: algebra_simps)
  qed
  have "lo * (lo ^ j * (A + x)) \<le> lo * (a + x)"
    using l1 lo0(1) by (rule mult_left_mono)
  also have "\<dots> \<le> fl64 (a + x)"
    using fl64_bounds(1) [OF ax] by (simp add: lo)
  finally have L: "lo ^ Suc j * (A + x) \<le> fl64 (a + x)" by (simp add: mult.assoc)
  have "fl64 (a + x) \<le> hi * (a + x)"
    using fl64_bounds(2) [OF ax] by (simp add: hi)
  also have "\<dots> \<le> hi * (hi ^ j * (A + x))"
    using h1 hi1 by (intro mult_left_mono) simp_all
  finally have H: "fl64 (a + x) \<le> hi ^ Suc j * (A + x)" by (simp add: mult.assoc)
  have A0: "0 \<le> A + x" using Cons.prems(2) x0 by simp
  have xs0: "\<forall>u\<in>set xs. 0 \<le> u" using Cons.prems(1) by simp
  from Cons.IH [OF xs0 A0 lo hi L H] show ?case by (simp add: add.assoc)
qed

lemma loop_sum_accuracy:
  fixes us :: "real list"
  assumes "\<forall>u\<in>set us. 0 \<le> u"
  shows "\<bar>loop_sum us - sum_list us\<bar> \<le> ((1 + 1 / 2 ^ 53) ^ length us - 1) * sum_list us"
proof -
  define lo :: real where "lo = 1 - 1 / 2 ^ 53"
  define hi :: real where "hi = 1 + 1 / 2 ^ 53"
  define k where "k = length us"
  have S: "0 \<le> sum_list us" using assms by (simp add: sum_list_nonneg)
  have b: "lo ^ k * sum_list us \<le> loop_sum us \<and> loop_sum us \<le> hi ^ k * sum_list us"
    using loop_sum_bounds [OF assms order_refl lo_def hi_def, of 0 0]
    by (simp add: loop_sum_def k_def)
  have "1 + real k * (- (1 / 2 ^ 53)) \<le> (1 + (- (1 / 2 ^ 53))) ^ k"
    by (rule Bernoulli_inequality) simp
  then have bl: "1 - real k / 2 ^ 53 \<le> lo ^ k" by (simp add: lo_def)
  have "1 + real k * (1 / 2 ^ 53) \<le> (1 + 1 / 2 ^ 53) ^ k"
    by (rule Bernoulli_inequality) simp
  then have bh: "1 + real k / 2 ^ 53 \<le> hi ^ k" by (simp add: hi_def)
  have "1 - lo ^ k \<le> hi ^ k - 1" using bl bh by simp
  then have "(1 - lo ^ k) * sum_list us \<le> (hi ^ k - 1) * sum_list us"
    using S by (rule mult_right_mono)
  moreover have "sum_list us - loop_sum us \<le> (1 - lo ^ k) * sum_list us"
    using b by (simp add: algebra_simps)
  moreover have "loop_sum us - sum_list us \<le> (hi ^ k - 1) * sum_list us"
    using b by (simp add: algebra_simps)
  ultimately show ?thesis
    unfolding hi_def k_def by (simp add: abs_le_iff)
qed

section \<open>The generator: the sampling loop\<close>

lemma sampling_loop_gen:
  "sampling_loop lib rng er cov m pos acc =
     \<lparr>port_returns = port_returns acc @
        map (\<lambda>t. portfolio_returns lib
                   (normalize_weights lib (random_draw rng (pos + t * length er) (length er))) er)
          [0..<m],
      port_volatility = port_volatility acc @
        map (\<lambda>t. portfolio_volatility lib
                   (normalize_weights lib (random_draw rng (pos + t * length er) (length er))) cov)
          [0..<m],
      stock_weights = stock_weights acc @
        map (\<lambda>t. normalize_weights lib (random_draw rng (pos + t * length er) (length er)))
          [0..<m]\<rparr>"
proof (induction m arbitrary: pos acc)
  case 0
  show ?case by simp
next
  case (Suc m)
  show ?case
    unfolding sampling_loop.simps Let_def Suc.IH map_upt_Suc
    by (simp add: add.assoc)
qed

lemma sum_list_divide_const:
  fixes s :: real
  shows "sum_list (map (\<lambda>u. u / s) us) = sum_list us / s"
  by (induction us) (simp_all add: add_divide_distrib)

lemma sum_list_scaled_quotients:
  fixes s c :: real
  shows "sum_list (map (\<lambda>u. c * (u / s)) us) = c * (sum_list us / s)"
  by (induction us) (simp_all add: add_divide_distrib distrib_left)

lemma nonneg_sum_zero:
  fixes us :: "real list"
  assumes "\<forall>u\<in>set us. 0 \<le> u" "sum_list us = 0"
  shows "\<forall>u\<in>set us. u = 0"
  using assms by (simp add: sum_list_nonneg_eq_0_iff)

text \<open>
  The quotients of non-negative numbers by a sum \<open>s\<close> that is within the relative
  error \<open>d\<close> of their exact sum.
\<close>

lemma computed_sum_bounds:
  fixes us :: "real list"
  assumes S: "0 < sum_list us" and d: "0 \<le> d" "d < 1"
    and acc: "\<bar>s - sum_list us\<bar> \<le> d * sum_list us"
  shows "(1 - d) * sum_list us \<le> s" "s \<le> (1 + d) * sum_list us" "0 < s"
proof -
  show a: "(1 - d) * sum_list us \<le> s" using acc by (simp add: algebra_simps abs_le_iff)
  show "s \<le> (1 + d) * sum_list us" using acc by (simp add: algebra_simps abs_le_iff)
  have "0 < (1 - d) * sum_list us" using S d by simp
  with a show "0 < s" by simp
qed

lemma rounded_quotient_bounds:
  assumes "0 \<le> u" "0 < s"
  shows "0 \<le> fl64 (u / s)"
    "(1 - 1 / 2 ^ 53) * (u / s) \<le> fl64 (u / s)"
    "fl64 (u / s) \<le> (1 + 1 / 2 ^ 53) * (u / s)"
proof -
  have q: "0 \<le> u / s" using assms by simp
  from q show "0 \<le> fl64 (u / s)" by (rule fl64_nonneg)
  from q show "(1 - 1 / 2 ^ 53) * (u / s) \<le> fl64 (u / s)" by (rule fl64_bounds(1))
  from q show "fl64 (u / s) \<le> (1 + 1 / 2 ^ 53) * (u / s)" by (rule fl64_bounds(2))
qed

lemma rounded_quotients_sum:
  fixes us :: "real list"
  assumes nn: "\<forall>u\<in>set us. 0 \<le> u" and S: "0 < sum_list us" and d: "0 \<le> d" "d < 1"
    and acc: "\<bar>s - sum_list us\<bar> \<le> d * sum_list us"
  shows "(1 - 1 / 2 ^ 53) / (1 + d) \<le> sum_list (map (\<lambda>u. fl64 (u / s)) us)"
    "sum_list (map (\<lambda>u. fl64 (u / s)) us) \<le> (1 + 1 / 2 ^ 53) / (1 - d)"
proof -
  note b = computed_sum_bounds [OF S d acc]
  have s0: "0 < s" by (rule b(3))
  have ratio_lo: "1 / (1 + d) \<le> sum_list us / s"
    using b(2) s0 d by (simp add: field_simps)
  have ratio_hi: "sum_list us / s \<le> 1 / (1 - d)"
    using b(1) s0 d by (simp add: field_simps)
  have "(1 - 1 / 2 ^ 53) * (1 / (1 + d)) \<le> (1 - 1 / 2 ^ 53) * (sum_list us / s)"
    using ratio_lo by (intro mult_left_mono) simp_all
  also have "\<dots> = sum_list (map (\<lambda>u. (1 - 1 / 2 ^ 53) * (u / s)) us)"
    by (simp only: sum_list_scaled_quotients)
  also have "\<dots> \<le> sum_list (map (\<lambda>u. fl64 (u / s)) us)"
    using nn s0 by (intro sum_list_mono rounded_quotient_bounds(2)) simp_all
  finally show "(1 - 1 / 2 ^ 53) / (1 + d) \<le> sum_list (map (\<lambda>u. fl64 (u / s)) us)"
    by simp
  have "sum_list (map (\<lambda>u. fl64 (u / s)) us) \<le>
        sum_list (map (\<lambda>u. (1 + 1 / 2 ^ 53) * (u / s)) us)"
    using nn s0 by (intro sum_list_mono rounded_quotient_bounds(3)) simp_all
  also have "\<dots> = (1 + 1 / 2 ^ 53) * (sum_list us / s)"
    by (simp only: sum_list_scaled_quotients)
  also have "\<dots> \<le> (1 + 1 / 2 ^ 53) * (1 / (1 - d))"
    using ratio_hi by (intro mult_left_mono) simp_all
  finally show "sum_list (map (\<lambda>u. fl64 (u / s)) us) \<le> (1 + 1 / 2 ^ 53) / (1 - d)"
    by simp
qed

text \<open>
  C10, as amended. In the sampling loop the \<open>t\<close>-th weight vector is the \<open>t\<close>-th draw of
  \<open>num_assets\<close> numbers of \<open>[0, 1)\<close>, each divided by the sum \<open>s\<close> that \<open>np.sum\<close> returned
  for the draw, with no test of that sum. Let \<open>s\<close> be within the relative error
  \<open>d < 1\<close> of the exact sum of the draw. When the draw has a positive sum, every weight
  is the float64 number nearest to the quotient, which is finite and not negative,
  and the weights sum to 1 up to rounding: their sum lies between
  \<open>(1 - 2\<^sup>-\<^sup>5\<^sup>3) / (1 + d)\<close> and \<open>(1 + 2\<^sup>-\<^sup>5\<^sup>3) / (1 - d)\<close>. When every number of the draw
  is zero, every weight is \<open>NaN\<close>.
\<close>

theorem normalized_weights_sum_near_one:
  assumes "\<forall>i. 0 \<le> rng i \<and> rng i < 1" and "t < n"
    and k_def: "k = length er"
    and us_def: "us = random_draw rng (t * k) k"
    and s_def: "s = np_sum lib us"
    and w_def: "w = stock_weights (sampling_loop lib rng er cov n 0
                  \<lparr>port_returns = [], port_volatility = [], stock_weights = []\<rparr>) ! t"
    and d: "0 \<le> d" "d < 1"
    and acc: "\<bar>s - sum_list us\<bar> \<le> d * sum_list us"
  shows "w = map (\<lambda>u. np_div u s) us \<and>
         (0 < sum_list us \<longrightarrow>
            w = map (\<lambda>u. Fin (fl64 (u / s))) us \<and>
            (\<forall>u\<in>set us. 0 \<le> fl64 (u / s)) \<and>
            (1 - 1 / 2 ^ 53) / (1 + d) \<le> sum_list (map (\<lambda>u. fl64 (u / s)) us) \<and>
            sum_list (map (\<lambda>u. fl64 (u / s)) us) \<le> (1 + 1 / 2 ^ 53) / (1 - d)) \<and>
         (sum_list us = 0 \<longrightarrow> w = replicate k NaN)"
proof -
  have w: "w = normalize_weights lib us"
    using assms(2) unfolding w_def us_def k_def sampling_loop_gen by simp
  have nn: "\<forall>u\<in>set us. 0 \<le> u"
    using assms(1) by (auto simp: us_def random_draw_def)
  have len: "length us = k" by (simp add: us_def random_draw_def)
  have a: "w = map (\<lambda>u. np_div u s) us"
    by (simp add: w normalize_weights_def s_def)
  have b: "w = map (\<lambda>u. Fin (fl64 (u / s))) us \<and>
            (\<forall>u\<in>set us. 0 \<le> fl64 (u / s)) \<and>
            (1 - 1 / 2 ^ 53) / (1 + d) \<le> sum_list (map (\<lambda>u. fl64 (u / s)) us) \<and>
            sum_list (map (\<lambda>u. fl64 (u / s)) us) \<le> (1 + 1 / 2 ^ 53) / (1 - d)"
    if pos: "0 < sum_list us"
  proof (intro conjI)
    have s0: "0 < s" by (rule computed_sum_bounds(3) [OF pos d acc])
    then show "w = map (\<lambda>u. Fin (fl64 (u / s))) us"
      by (simp add: a np_div_def)
    show "\<forall>u\<in>set us. 0 \<le> fl64 (u / s)"
      using nn s0 by (auto intro: rounded_quotient_bounds(1))
    show "(1 - 1 / 2 ^ 53) / (1 + d) \<le> sum_list (map (\<lambda>u. fl64 (u / s)) us)"
      by (rule rounded_quotients_sum(1) [OF nn pos d acc])
    show "sum_list (map (\<lambda>u. fl64 (u / s)) us) \<le> (1 + 1 / 2 ^ 53) / (1 - d)"
      by (rule rounded_quotients_sum(2) [OF nn pos d acc])
  qed
  have c: "w = replicate k NaN" if z: "sum_list us = 0"
  proof -
    have s0: "s = 0" using acc z by simp
    have uz: "\<forall>u\<in>set us. u = 0" using nn z by (rule nonneg_sum_zero)
    have "map (\<lambda>u. np_div u s) us = map (\<lambda>u. NaN) us"
      using uz s0 by (intro map_cong) (simp_all add: np_div_def)
    then show ?thesis by (simp add: a len map_replicate_const)
  qed
  from a b c show ?thesis by blast
qed

lemma sixteenths_draw: "random_draw sixteenths 0 3 = [1 / 16, 1 / 4, 1 / 16]"
  by (simp add: random_draw_def sixteenths_def upt_rec numeral_3_eq_3)

lemma sixteenths_sum: "loop_sum [1 / 16, 1 / 4, 1 / 16] = 3 / 8"
  by (simp add: loop_sum_def fl64_values)

lemma sixteenths_weights:
  "stock_weights (sampling_loop loop_numpy sixteenths [1, 2, 3]
       \<lparr>shape = [3, 3], entry = (\<lambda>i j. 0)\<rparr> 1 0
       \<lparr>port_returns = [], port_volatility = [], stock_weights = []\<rparr>) ! 0 =
     normalize_weights loop_numpy [1 / 16, 1 / 4, 1 / 16]"
  by (simp add: sampling_loop_gen sixteenths_draw [unfolded numeral_3_eq_3])

theorem normalized_weights_sum_near_one_witness:
  "stock_weights (sampling_loop loop_numpy sixteenths [1, 2, 3]
       \<lparr>shape = [3, 3], entry = (\<lambda>i j. 0)\<rparr> 1 0
       \<lparr>port_returns = [], port_volatility = [], stock_weights = []\<rparr>) ! 0 =
     map (\<lambda>u. Fin (fl64 (u / (3 / 8)))) [1 / 16, 1 / 4, 1 / 16] \<and>
   (1 - 1 / 2 ^ 53) / (1 + ((1 + 1 / 2 ^ 53) ^ 3 - 1))
     \<le> sum_list (map (\<lambda>u. fl64 (u / (3 / 8))) [1 / 16, 1 / 4, 1 / 16]) \<and>
   sum_list (map (\<lambda>u. fl64 (u / (3 / 8))) [1 / 16, 1 / 4, 1 / 16])
     \<le> (1 + 1 / 2 ^ 53) / (1 - ((1 + 1 / 2 ^ 53) ^ 3 - 1))"
proof -
  have r: "\<forall>i. 0 \<le> sixteenths i \<and> sixteenths i < 1" by (simp add: sixteenths_def)
  have lt: "(0::nat) < 1" by simp
  have k: "(3::nat) = length [1::real, 2, 3]" by simp
  have us: "[1 / 16, 1 / 4, 1 / 16] = random_draw sixteenths (0 * 3) 3"
    by (simp add: sixteenths_draw)
  have s: "(3 / 8 :: real) = np_sum loop_numpy [1 / 16, 1 / 4, 1 / 16]"
    by (simp add: loop_numpy_def sixteenths_sum)
  have d: "(0::real) \<le> (1 + 1 / 2 ^ 53) ^ 3 - 1" "(1 + 1 / 2 ^ 53) ^ 3 - 1 < (1::real)"
    by (simp_all add: power3_eq_cube)
  have nn: "\<forall>u\<in>set [1 / 16, 1 / 4, 1 / 16 :: real]. 0 \<le> u" by simp
  have acc: "\<bar>3 / 8 - sum_list [1 / 16, 1 / 4, 1 / 16 :: real]\<bar>
               \<le> ((1 + 1 / 2 ^ 53) ^ 3 - 1) * sum_list [1 / 16, 1 / 4, 1 / 16 :: real]"
    using loop_sum_accuracy [OF nn] unfolding sixteenths_sum by simp
  have p: "0 < sum_list [1 / 16, 1 / 4, 1 / 16 :: real]" by simp
  define w where "w = stock_weights (sampling_loop loop_numpy sixteenths [1, 2, 3]
       \<lparr>shape = [3, 3], entry = (\<lambda>i j. 0)\<rparr> 1 0
       \<lparr>port_returns = [], port_volatility = [], stock_weights = []\<rparr>) ! 0"
  note t = normalized_weights_sum_near_one [OF r lt k us s w_def d acc]
  note c = t [THEN conjunct2, THEN conjunct1, THEN mp, OF p]
  have a: "w = map (\<lambda>u. Fin (fl64 (u / (3 / 8)))) [1 / 16, 1 / 4, 1 / 16]"
    by (rule c [THEN conjunct1])
  have lo: "(1 - 1 / 2 ^ 53) / (1 + ((1 + 1 / 2 ^ 53) ^ 3 - 1))
          \<le> sum_list (map (\<lambda>u. fl64 (u / (3 / 8))) [1 / 16, 1 / 4, 1 / 16])"
    by (rule c [THEN conjunct2, THEN conjunct2, THEN conjunct1])
  have hi: "sum_list (map (\<lambda>u. fl64 (u / (3 / 8))) [1 / 16, 1 / 4, 1 / 16])
          \<le> (1 + 1 / 2 ^ 53) / (1 - ((1 + 1 / 2 ^ 53) ^ 3 - 1))"
    by (rule c [THEN conjunct2, THEN conjunct2, THEN conjunct2])
  show ?thesis
    using a lo hi unfolding w_def by (intro conjI)
qed

text \<open>
  C10 as stated fails on a draw of positive sum. The draw \<open>1/16\<close>, \<open>1/4\<close>, \<open>1/16\<close> has
  the sum \<open>3/8\<close>, which the additions reach without rounding, and the weights that
  line 48 stores are the float64 numbers nearest to \<open>1/6\<close>, \<open>2/3\<close> and \<open>1/6\<close>: they sum
  to \<open>1 - 2\<^sup>-\<^sup>5\<^sup>4\<close>, not to 1.
\<close>

theorem normalized_weights_sum_counterexample:
  "0 < sum_list (random_draw sixteenths 0 3) \<and>
   np_sum loop_numpy (random_draw sixteenths 0 3) = 3 / 8 \<and>
   stock_weights (sampling_loop loop_numpy sixteenths [1, 2, 3]
       \<lparr>shape = [3, 3], entry = (\<lambda>i j. 0)\<rparr> 1 0
       \<lparr>port_returns = [], port_volatility = [], stock_weights = []\<rparr>) ! 0 =
     map Fin [6004799503160661 / 2 ^ 55, 6004799503160661 / 2 ^ 53,
              6004799503160661 / 2 ^ 55] \<and>
   sum_list [6004799503160661 / 2 ^ 55, 6004799503160661 / 2 ^ 53,
             6004799503160661 / 2 ^ 55 :: real] = 1 - 1 / 2 ^ 54"
proof -
  have a: "0 < sum_list (random_draw sixteenths 0 3)"
    by (simp add: sixteenths_draw)
  have s: "np_sum loop_numpy (random_draw sixteenths 0 3) = 3 / 8"
    by (simp add: sixteenths_draw loop_numpy_def sixteenths_sum)
  have q: "(1 / 16) / (3 / 8) = (1 / 6 :: real)" "(1 / 4) / (3 / 8) = (2 / 3 :: real)"
    by simp_all
  have "normalize_weights loop_numpy [1 / 16, 1 / 4, 1 / 16] =
      [Fin (fl64 ((1 / 16) / (3 / 8))), Fin (fl64 ((1 / 4) / (3 / 8))),
       Fin (fl64 ((1 / 16) / (3 / 8)))]"
    by (simp add: normalize_weights_def loop_numpy_def sixteenths_sum np_div_def)
  then have b: "normalize_weights loop_numpy [1 / 16, 1 / 4, 1 / 16] =
      map Fin [6004799503160661 / 2 ^ 55, 6004799503160661 / 2 ^ 53,
               6004799503160661 / 2 ^ 55]"
    unfolding q fl64_sixth fl64_two_thirds by simp
  have c: "sum_list [6004799503160661 / 2 ^ 55, 6004799503160661 / 2 ^ 53,
             6004799503160661 / 2 ^ 55 :: real] = 1 - 1 / 2 ^ 54"
    by simp
  show ?thesis
    using a s b c unfolding sixteenths_weights by (intro conjI)
qed

section \<open>The optimizer: the sweep\<close>

lemma record_solution_frontier:
  "efficient_frontier (record_solution cols mu sigma rf x st) =
     efficient_frontier st @ [frontier_point cols mu sigma rf x]"
  by (simp add: record_solution_def Let_def)

lemma solve_target_frontier:
  assumes "solve_target solve cols mu sigma bnd rf r st = Inr st'"
  shows "efficient_frontier st' =
           efficient_frontier st @ (case point_for solve cols mu sigma bnd rf r of None \<Rightarrow> [] | Some row \<Rightarrow> [row])"
  using assms
  by (auto simp: solve_target_def point_for_def record_solution_frontier
           split: solver_result.splits if_splits)

lemma sweep_frontier:
  assumes "sweep solve cols mu sigma bnd rf ts st = Inr st'"
  shows "efficient_frontier st' =
           efficient_frontier st @ List.map_filter (point_for solve cols mu sigma bnd rf) ts"
  using assms
proof (induction ts arbitrary: st)
  case Nil
  then show ?case by (simp add: List.map_filter_simps)
next
  case (Cons r ts)
  from Cons.prems obtain st1 where
    s1: "solve_target solve cols mu sigma bnd rf r st = Inr st1"
    and s2: "sweep solve cols mu sigma bnd rf ts st1 = Inr st'"
    by (auto split: sum.splits)
  show ?case
    using Cons.IH [OF s2] solve_target_frontier [OF s1]
    by (simp add: List.map_filter_simps split: option.splits)
qed

lemma solve_target_total:
  assumes "raises_only_ValueError solve"
  shows "\<exists>st'. solve_target solve cols mu sigma bnd rf r st = Inr st'"
  using assms
  by (auto simp: solve_target_def raises_only_ValueError_def split: solver_result.splits)

lemma sweep_total:
  assumes "raises_only_ValueError solve"
  shows "\<exists>st'. sweep solve cols mu sigma bnd rf ts st = Inr st'"
proof (induction ts arbitrary: st)
  case Nil
  show ?case by simp
next
  case (Cons r ts)
  obtain st1 where "solve_target solve cols mu sigma bnd rf r st = Inr st1"
    using solve_target_total [OF assms] by blast
  then show ?case using Cons.IH [of st1] by simp
qed






lemma foldl_nf_max_NInf:
  assumes "\<forall>x\<in>set xs. x = NInf"
  shows "foldl nf_max NInf xs = NInf"
  using assms by (induction xs) (simp_all add: nf_max_def)

lemma idxmax_all_NInf:
  assumes "xs \<noteq> []" "\<forall>x\<in>set xs. x = NInf"
  shows "idxmax xs = Inr 0"
proof -
  obtain y ys where xs: "xs = y # ys" using assms(1) by (cases xs) auto
  have y: "y = NInf" and ys: "\<forall>x\<in>set ys. x = NInf" using assms(2) xs by auto
  have m: "map fill_nan ys = ys" using ys by (induction ys) (simp_all add: fill_nan_def)
  show ?thesis
    unfolding idxmax_def xs using y ys
    by (simp add: Let_def fill_nan_def m foldl_nf_max_NInf)
qed

subsection \<open>Dictionaries of weights\<close>

lemma foldl_upd_map_of:
  "foldl (\<lambda>m (k, v). m(k \<mapsto> v)) m0 kvs = m0 ++ map_of (rev kvs)"
proof (induction kvs arbitrary: m0)
  case Nil
  show ?case by simp
next
  case (Cons kv kvs)
  obtain k v where kv: "kv = (k, v)" by (cases kv)
  have "foldl (\<lambda>m (k, v). m(k \<mapsto> v)) m0 (kv # kvs) =
          foldl (\<lambda>m (k, v). m(k \<mapsto> v)) (m0(k \<mapsto> v)) kvs"
    by (simp only: foldl_Cons kv prod.case)
  also have "\<dots> = m0(k \<mapsto> v) ++ map_of (rev kvs)"
    by (rule Cons.IH)
  also have "\<dots> = m0 ++ map_of (rev (kv # kvs))"
    by (simp add: kv)
  finally show ?case .
qed

lemma dict_of_map_of: "dict_of kvs = map_of (rev kvs)"
  by (simp add: dict_of_def foldl_upd_map_of)

lemma enumerate_keys_zip:
  assumes "length ws = length cols"
  shows "map (\<lambda>(i, w). (f (cols ! i), w)) (enumerate 0 ws) = zip (map f cols) ws"
  using assms by (intro nth_equalityI) (simp_all add: nth_enumerate_eq)

lemma map_of_inj_keys:
  assumes "inj f"
  shows "map_of (map (\<lambda>(k, v). (f k, v)) xs) (f x) = map_of xs x"
  using assms by (induction xs) (auto simp: inj_eq)

lemma zip_map_keys: "zip (map f cols) ws = map (\<lambda>(k, v). (f k, v)) (zip cols ws)"
  by (simp add: zip_map1)

lemma map_of_self_keys:
  "map_of (map (\<lambda>k. (k, g k)) xs) = (\<lambda>k. if k \<in> set xs then Some (g k) else None)"
  by (induction xs) auto

lemma row_weights_lookup:
  assumes "length ws = length cols"
  shows "fr_weights (frontier_point cols mu sigma rf ws) (''weight_'' @ c) =
           map_of (rev (zip cols ws)) c"
proof -
  have inj: "inj ((@) ''weight_'')" by (simp add: inj_on_def)
  have "fr_weights (frontier_point cols mu sigma rf ws) =
          map_of (rev (map (\<lambda>(k, v). (''weight_'' @ k, v)) (zip cols ws)))"
    using enumerate_keys_zip [OF assms, of "(@) ''weight_''"]
    by (simp add: frontier_point_def Let_def dict_of_map_of zip_map_keys)
  then show ?thesis
    using map_of_inj_keys [OF inj, of "rev (zip cols ws)" c]
    by (simp add: rev_map)
qed

lemma row_has_weight_keys:
  assumes "length ws = length cols" "c \<in> set cols"
  shows "fr_weights (frontier_point cols mu sigma rf ws) (''weight_'' @ c) \<noteq> None"
proof -
  have "dom (map_of (rev (zip cols ws))) = set cols"
    by (metis assms(1) dom_map_of_conv_image_fst list.set_map map_fst_zip set_rev rev_map)
  then have "map_of (rev (zip cols ws)) c \<noteq> None" using assms(2) by blast
  then show ?thesis unfolding row_weights_lookup [OF assms(1)] .
qed

lemma tracked_weights_eq:
  assumes "length ws = length cols"
  shows "pf_weights (portfolio_of_row cols (frontier_point cols mu sigma rf ws)) =
           dict_of (map (\<lambda>(i, w). (cols ! i, w)) (enumerate 0 ws))"
proof -
  let ?D = "map_of (rev (zip cols ws))"
  have rhs: "dict_of (map (\<lambda>(i, w). (cols ! i, w)) (enumerate 0 ws)) = ?D"
    using enumerate_keys_zip [OF assms, of "\<lambda>c. c"] by (simp add: dict_of_map_of)
  have dom: "dom ?D = set cols"
    by (metis assms dom_map_of_conv_image_fst list.set_map map_fst_zip set_rev rev_map)
  have lhs: "pf_weights (portfolio_of_row cols (frontier_point cols mu sigma rf ws)) =
               map_of (map (\<lambda>c. (c, the (?D c))) (rev cols))"
    unfolding portfolio_of_row_def row_weights_lookup [OF assms] dict_of_map_of rev_map
    by simp
  have "map_of (map (\<lambda>c. (c, the (?D c))) (rev cols)) = ?D"
  proof
    fix c
    show "map_of (map (\<lambda>c. (c, the (?D c))) (rev cols)) c = ?D c"
    proof (cases "c \<in> set cols")
      case True
      then obtain v where "?D c = Some v" using dom by blast
      then show ?thesis using True by (simp add: map_of_self_keys)
    next
      case False
      then have "?D c = None" using dom by blast
      then show ?thesis using False by (simp add: map_of_self_keys)
    qed
  qed
  then show ?thesis by (simp add: lhs rhs)
qed

lemma tracked_portfolio_eq:
  assumes "length ws = length cols"
  shows "\<lparr>pf_weights = dict_of (map (\<lambda>(i, w). (cols ! i, w)) (enumerate 0 ws)),
          pf_return = fr_return (frontier_point cols mu sigma rf ws),
          pf_risk = fr_risk (frontier_point cols mu sigma rf ws),
          pf_sharpe = fr_sharpe (frontier_point cols mu sigma rf ws)\<rparr> =
         portfolio_of_row cols (frontier_point cols mu sigma rf ws)"
  using tracked_weights_eq [OF assms, of mu sigma rf]
  by (simp add: portfolio_of_row_def)

lemma sharpe_of_cases: "sharpe_of r f k = NInf \<or> (\<exists>v. sharpe_of r f k = Fin v)"
  by (simp add: sharpe_of_def)

lemma frontier_point_sharpe:
  "fr_sharpe (frontier_point cols mu sigma rf ws) = NInf \<or>
   (\<exists>v. fr_sharpe (frontier_point cols mu sigma rf ws) = Fin v)"
  by (simp add: frontier_point_def Let_def sharpe_of_cases)

lemma nf_less_step:
  assumes "x = NInf \<or> (\<exists>v. x = Fin v)" "m = NInf \<or> (\<exists>v. m = Fin v)"
    "s = NInf \<or> (\<exists>v. s = Fin v)" "\<not> nf_less m x" "nf_less m s"
  shows "nf_less x s" and "\<not> nf_less s x"
  using assms by auto

lemma nf_less_irrefl: "\<not> nf_less s s"
  by (cases s) auto

subsection \<open>The tracked maximum\<close>

lemma tracking_inv_bound:
  assumes "tracking_inv cols st"
  shows "max_sharpe_ratio st = NInf \<or> (\<exists>v. max_sharpe_ratio st = Fin v)"
    and "\<forall>j<length (efficient_frontier st).
           \<not> nf_less (max_sharpe_ratio st) (fr_sharpe (efficient_frontier st ! j))"
  using assms unfolding tracking_inv_def Let_def
  by (auto split: option.splits)

lemma tracking_inv_rows:
  assumes "tracking_inv cols st" "j < length (efficient_frontier st)"
  shows "fr_sharpe (efficient_frontier st ! j) = NInf \<or>
         (\<exists>v. fr_sharpe (efficient_frontier st ! j) = Fin v)"
  using assms unfolding tracking_inv_def Let_def by simp

lemma record_solution_inv:
  assumes inv: "tracking_inv cols st" and len: "length ws = length cols"
  shows "tracking_inv cols (record_solution cols mu sigma rf ws st)"
proof -
  define r where "r = frontier_point cols mu sigma rf ws"
  define fr where "fr = efficient_frontier st"
  define m where "m = max_sharpe_ratio st"
  define s where "s = fr_sharpe r"
  have s_ok: "s = NInf \<or> (\<exists>v. s = Fin v)"
    unfolding s_def r_def by (rule frontier_point_sharpe)
  have m_ok: "m = NInf \<or> (\<exists>v. m = Fin v)"
    unfolding m_def by (rule tracking_inv_bound(1) [OF inv])
  have m_top: "\<And>j. j < length fr \<Longrightarrow> \<not> nf_less m (fr_sharpe (fr ! j))"
    unfolding m_def fr_def using tracking_inv_bound(2) [OF inv] by blast
  have rows_ok: "\<And>j. j < length fr \<Longrightarrow>
      fr_sharpe (fr ! j) = NInf \<or> (\<exists>v. fr_sharpe (fr ! j) = Fin v)"
    unfolding fr_def using tracking_inv_rows [OF inv] by blast
  have rows_ok': "\<forall>row\<in>set (fr @ [r]). fr_sharpe row = NInf \<or> (\<exists>v. fr_sharpe row = Fin v)"
    using inv s_ok unfolding tracking_inv_def Let_def fr_def s_def by auto
  show ?thesis
  proof (cases "nf_less m s")
    case True
    have st2: "record_solution cols mu sigma rf ws st =
                 st\<lparr>efficient_frontier := fr @ [r], max_sharpe_ratio := s,
                    max_sharpe_portfolio := Some (portfolio_of_row cols r)\<rparr>"
      using True tracked_portfolio_eq [OF len, of mu sigma rf]
      unfolding record_solution_def Let_def m_def s_def r_def fr_def by simp
    have a: "\<forall>j<length (fr @ [r]). \<not> nf_less s (fr_sharpe ((fr @ [r]) ! j))"
    proof (intro allI impI)
      fix j assume "j < length (fr @ [r])"
      then consider "j < length fr" | "j = length fr" by fastforce
      then show "\<not> nf_less s (fr_sharpe ((fr @ [r]) ! j))"
      proof cases
        case 1
        then show ?thesis
          using nf_less_step(2) [OF rows_ok [OF 1] m_ok s_ok m_top [OF 1] True]
          by (simp add: nth_append)
      next
        case 2
        then show ?thesis by (simp add: s_def nf_less_irrefl)
      qed
    qed
    have b: "\<forall>j<length fr. nf_less (fr_sharpe ((fr @ [r]) ! j)) s"
    proof (intro allI impI)
      fix j assume 1: "j < length fr"
      show "nf_less (fr_sharpe ((fr @ [r]) ! j)) s"
        using nf_less_step(1) [OF rows_ok [OF 1] m_ok s_ok m_top [OF 1] True] 1
        by (simp add: nth_append)
    qed
    have "\<exists>i<length (fr @ [r]). portfolio_of_row cols r = portfolio_of_row cols ((fr @ [r]) ! i) \<and>
             s = fr_sharpe ((fr @ [r]) ! i) \<and>
             (\<forall>j<length (fr @ [r]). \<not> nf_less (fr_sharpe ((fr @ [r]) ! i)) (fr_sharpe ((fr @ [r]) ! j))) \<and>
             (\<forall>j<i. nf_less (fr_sharpe ((fr @ [r]) ! j)) (fr_sharpe ((fr @ [r]) ! i)))"
      using a b by (intro exI [of _ "length fr"]) (simp add: s_def)
    then show ?thesis
      unfolding st2 tracking_inv_def Let_def using rows_ok' by simp
  next
    case False
    have st2: "record_solution cols mu sigma rf ws st = st\<lparr>efficient_frontier := fr @ [r]\<rparr>"
      using False unfolding record_solution_def Let_def m_def s_def r_def fr_def by simp
    show ?thesis
    proof (cases "max_sharpe_portfolio st")
      case None
      then have m: "m = NInf" and all: "\<forall>row\<in>set fr. fr_sharpe row = NInf"
        using inv unfolding tracking_inv_def Let_def m_def fr_def by simp_all
      have "s = NInf" using False s_ok m by auto
      then show ?thesis
        unfolding st2 tracking_inv_def Let_def using None m all rows_ok'
        by (simp add: m_def s_def)
    next
      case (Some p)
      then obtain i where i: "i < length fr" "p = portfolio_of_row cols (fr ! i)"
        "m = fr_sharpe (fr ! i)"
        "\<forall>j<length fr. \<not> nf_less (fr_sharpe (fr ! i)) (fr_sharpe (fr ! j))"
        "\<forall>j<i. nf_less (fr_sharpe (fr ! j)) (fr_sharpe (fr ! i))"
        using inv unfolding tracking_inv_def Let_def m_def fr_def by auto
      have a: "\<forall>j<length (fr @ [r]). \<not> nf_less (fr_sharpe ((fr @ [r]) ! i)) (fr_sharpe ((fr @ [r]) ! j))"
      proof (intro allI impI)
        fix j assume "j < length (fr @ [r])"
        then consider "j < length fr" | "j = length fr" by fastforce
        then show "\<not> nf_less (fr_sharpe ((fr @ [r]) ! i)) (fr_sharpe ((fr @ [r]) ! j))"
        proof cases
          case 1
          then show ?thesis using i(1,4) by (simp add: nth_append)
        next
          case 2
          then show ?thesis using i(1,3) False by (simp add: nth_append s_def)
        qed
      qed
      have b: "\<forall>j<i. nf_less (fr_sharpe ((fr @ [r]) ! j)) (fr_sharpe ((fr @ [r]) ! i))"
        using i(1,5) by (simp add: nth_append)
      have "\<exists>i<length (fr @ [r]). p = portfolio_of_row cols ((fr @ [r]) ! i) \<and>
               m = fr_sharpe ((fr @ [r]) ! i) \<and>
               (\<forall>j<length (fr @ [r]). \<not> nf_less (fr_sharpe ((fr @ [r]) ! i)) (fr_sharpe ((fr @ [r]) ! j))) \<and>
               (\<forall>j<i. nf_less (fr_sharpe ((fr @ [r]) ! j)) (fr_sharpe ((fr @ [r]) ! i)))"
        using a b i(1,2,3) by (intro exI [of _ i]) (simp add: nth_append)
      then show ?thesis
        unfolding st2 tracking_inv_def Let_def using Some rows_ok'
        by (simp add: m_def)
    qed
  qed
qed

lemma solve_target_inv:
  assumes "tracking_inv cols st" "length mu = length cols"
    "solve_target solve cols mu sigma bnd rf r st = Inr st'"
  shows "tracking_inv cols st'"
  using assms
  by (auto simp: solve_target_def record_solution_inv split: solver_result.splits if_splits)

lemma sweep_inv:
  assumes "tracking_inv cols st" "length mu = length cols"
    "sweep solve cols mu sigma bnd rf ts st = Inr st'"
  shows "tracking_inv cols st'"
  using assms
proof (induction ts arbitrary: st)
  case Nil
  then show ?case by simp
next
  case (Cons r ts)
  from Cons.prems(3) obtain st1 where
    s1: "solve_target solve cols mu sigma bnd rf r st = Inr st1"
    and s2: "sweep solve cols mu sigma bnd rf ts st1 = Inr st'"
    by (auto split: sum.splits)
  from solve_target_inv [OF Cons.prems(1,2) s1] have "tracking_inv cols st1" .
  from Cons.IH [OF this Cons.prems(2) s2] show ?case .
qed

lemma initial_inv: "tracking_inv cols initial_state"
  by (simp add: tracking_inv_def initial_state_def)

section \<open>The optimizer: the returned result\<close>

lemma length_df_mean: "length (df_mean df) = length (columns df)"
  by (simp add: df_mean_def)

lemma optimize_unfold:
  assumes "\<not> insufficient_data df"
  shows "optimize_portfolio solve df rf wb =
     (case weight_limits wb (length (df_mean df)) of
        Inl e \<Rightarrow> Inl e
      | Inr bnd \<Rightarrow>
          (case sweep solve (columns df) (df_mean df) (df_cov df) bnd rf
                  (target_returns (df_mean df)) initial_state of
             Inl e \<Rightarrow> Inl e
           | Inr st \<Rightarrow> assemble_result (columns df) (warnings bnd) st))"
  using assms unfolding optimize_portfolio_def insufficient_data_def Let_def by simp

lemma optimize_insufficient:
  assumes "insufficient_data df"
  shows "optimize_portfolio solve df rf wb =
     Inr \<lparr>printed = [''Error: Not enough data for portfolio optimization.''], returned = None\<rparr>"
  using assms unfolding optimize_portfolio_def insufficient_data_def by simp

lemma optimize_success:
  assumes "optimize_portfolio solve df rf wb = Inr out" "\<not> insufficient_data df"
  obtains bnd st where
    "weight_limits wb (length (df_mean df)) = Inr bnd"
    "sweep solve (columns df) (df_mean df) (df_cov df) bnd rf
       (target_returns (df_mean df)) initial_state = Inr st"
    "assemble_result (columns df) (warnings bnd) st = Inr out"
proof -
  note u = assms(1) [unfolded optimize_unfold [OF assms(2)]]
  obtain bnd where b: "weight_limits wb (length (df_mean df)) = Inr bnd"
    using u by (cases "weight_limits wb (length (df_mean df))") simp_all
  obtain st where st: "sweep solve (columns df) (df_mean df) (df_cov df) bnd rf
       (target_returns (df_mean df)) initial_state = Inr st"
    using u b
    by (cases "sweep solve (columns df) (df_mean df) (df_cov df) bnd rf
       (target_returns (df_mean df)) initial_state") simp_all
  have "assemble_result (columns df) (warnings bnd) st = Inr out"
    using u b st by simp
  with b st show ?thesis by (rule that)
qed

lemma returned_sufficient:
  assumes "optimize_portfolio solve df rf wb = Inr out" "returned out = Some res"
  shows "\<not> insufficient_data df"
proof
  assume "insufficient_data df"
  from optimize_insufficient [OF this, of solve rf wb] assms show False by simp
qed

lemma assemble_result_Inr:
  assumes "tracking_inv cols st"
  shows "assemble_result cols w st =
     Inr \<lparr>printed = w,
          returned = Some
            \<lparr>res_efficient_frontier = efficient_frontier st,
             res_max_sharpe_portfolio =
               (if efficient_frontier st = [] then None
                else if max_sharpe_portfolio st = None
                then Some (portfolio_of_row cols (efficient_frontier st ! 0))
                else max_sharpe_portfolio st),
             res_min_variance_portfolio =
               (if efficient_frontier st = [] then None
                else Some (portfolio_of_row cols
                       (efficient_frontier st ! idxmin (map fr_risk (efficient_frontier st)))))\<rparr>\<rparr>"
proof (cases "max_sharpe_portfolio st")
  case None
  show ?thesis
  proof (cases "efficient_frontier st = []")
    case True
    then show ?thesis using None by (simp add: assemble_result_def Let_def)
  next
    case False
    have "\<forall>row\<in>set (efficient_frontier st). fr_sharpe row = NInf"
      using assms None unfolding tracking_inv_def Let_def by simp
    then have "idxmax (map fr_sharpe (efficient_frontier st)) = Inr 0"
      using False by (intro idxmax_all_NInf) auto
    then show ?thesis using None False by (simp add: assemble_result_def Let_def)
  qed
next
  case (Some p)
  then have "efficient_frontier st \<noteq> []"
    using assms unfolding tracking_inv_def Let_def by auto
  then show ?thesis using Some by (simp add: assemble_result_def Let_def)
qed

lemma optimize_result:
  assumes "optimize_portfolio solve df rf wb = Inr out" "\<not> insufficient_data df"
  obtains bnd st res where
    "weight_limits wb (length (df_mean df)) = Inr bnd"
    "sweep solve (columns df) (df_mean df) (df_cov df) bnd rf
       (target_returns (df_mean df)) initial_state = Inr st"
    "tracking_inv (columns df) st"
    "printed out = warnings bnd"
    "returned out = Some res"
    "res_efficient_frontier res = efficient_frontier st"
    "res_max_sharpe_portfolio res =
       (if efficient_frontier st = [] then None
        else if max_sharpe_portfolio st = None
        then Some (portfolio_of_row (columns df) (efficient_frontier st ! 0))
        else max_sharpe_portfolio st)"
    "res_min_variance_portfolio res =
       (if efficient_frontier st = [] then None
        else Some (portfolio_of_row (columns df)
               (efficient_frontier st ! idxmin (map fr_risk (efficient_frontier st)))))"
proof -
  from optimize_success [OF assms] obtain bnd st where
    a: "weight_limits wb (length (df_mean df)) = Inr bnd"
      "sweep solve (columns df) (df_mean df) (df_cov df) bnd rf
         (target_returns (df_mean df)) initial_state = Inr st"
      "assemble_result (columns df) (warnings bnd) st = Inr out"
    by metis
  have inv: "tracking_inv (columns df) st"
    using sweep_inv [OF initial_inv length_df_mean a(2)] .
  define res where "res = \<lparr>res_efficient_frontier = efficient_frontier st,
             res_max_sharpe_portfolio =
               (if efficient_frontier st = [] then None
                else if max_sharpe_portfolio st = None
                then Some (portfolio_of_row (columns df) (efficient_frontier st ! 0))
                else max_sharpe_portfolio st),
             res_min_variance_portfolio =
               (if efficient_frontier st = [] then None
                else Some (portfolio_of_row (columns df)
                       (efficient_frontier st ! idxmin (map fr_risk (efficient_frontier st)))))\<rparr>"
  have out: "out = \<lparr>printed = warnings bnd, returned = Some res\<rparr>"
    using a(3) unfolding assemble_result_Inr [OF inv] res_def by simp
  show ?thesis
    by (rule that [OF a(1,2) inv, of res]) (simp_all add: out, simp_all add: res_def)
qed

lemma optimize_returned:
  assumes "optimize_portfolio solve df rf wb = Inr out" "returned out = Some res"
  obtains bnd st where
    "weight_limits wb (length (df_mean df)) = Inr bnd"
    "sweep solve (columns df) (df_mean df) (df_cov df) bnd rf
       (target_returns (df_mean df)) initial_state = Inr st"
    "tracking_inv (columns df) st"
    "res_efficient_frontier res = efficient_frontier st"
    "res_max_sharpe_portfolio res =
       (if efficient_frontier st = [] then None
        else if max_sharpe_portfolio st = None
        then Some (portfolio_of_row (columns df) (efficient_frontier st ! 0))
        else max_sharpe_portfolio st)"
    "res_min_variance_portfolio res =
       (if efficient_frontier st = [] then None
        else Some (portfolio_of_row (columns df)
               (efficient_frontier st ! idxmin (map fr_risk (efficient_frontier st)))))"
proof (rule optimize_result [OF assms(1) returned_sufficient [OF assms]])
  fix bnd st res'
  assume a: "weight_limits wb (length (df_mean df)) = Inr bnd"
    "sweep solve (columns df) (df_mean df) (df_cov df) bnd rf
       (target_returns (df_mean df)) initial_state = Inr st"
    "tracking_inv (columns df) st"
    and r: "returned out = Some res'"
    and b: "res_efficient_frontier res' = efficient_frontier st"
    "res_max_sharpe_portfolio res' =
       (if efficient_frontier st = [] then None
        else if max_sharpe_portfolio st = None
        then Some (portfolio_of_row (columns df) (efficient_frontier st ! 0))
        else max_sharpe_portfolio st)"
    "res_min_variance_portfolio res' =
       (if efficient_frontier st = [] then None
        else Some (portfolio_of_row (columns df)
               (efficient_frontier st ! idxmin (map fr_risk (efficient_frontier st)))))"
  have e: "res' = res" using r assms(2) by simp
  show thesis
    by (rule that [OF a b [unfolded e]])
qed

text \<open>
  C1. When a call returns a result with a non-empty frontier, the max-Sharpe portfolio
  is the frontier row of some position \<open>i\<close>, read back as a portfolio; every Sharpe
  ratio of the frontier is a number or \<open>-inf\<close> and none is greater than that of row
  \<open>i\<close>; and every row before \<open>i\<close> has a strictly smaller one, so among equal
  greatest ratios the first swept wins.
\<close>

theorem max_sharpe_is_first_largest:
  assumes "optimize_portfolio solve df rf wb = Inr out" "returned out = Some res"
    "res_efficient_frontier res \<noteq> []"
  shows "\<exists>i<length (res_efficient_frontier res).
           res_max_sharpe_portfolio res =
             Some (portfolio_of_row (columns df) (res_efficient_frontier res ! i)) \<and>
           (\<forall>j<length (res_efficient_frontier res).
              (fr_sharpe (res_efficient_frontier res ! j) = NInf \<or>
               (\<exists>v. fr_sharpe (res_efficient_frontier res ! j) = Fin v)) \<and>
              \<not> nf_less (fr_sharpe (res_efficient_frontier res ! i))
                        (fr_sharpe (res_efficient_frontier res ! j))) \<and>
           (\<forall>j<i. nf_less (fr_sharpe (res_efficient_frontier res ! j))
                          (fr_sharpe (res_efficient_frontier res ! i)))"
proof (rule optimize_returned [OF assms(1,2)])
  fix bnd st
  assume inv: "tracking_inv (columns df) st"
    and fr: "res_efficient_frontier res = efficient_frontier st"
    and ms: "res_max_sharpe_portfolio res =
       (if efficient_frontier st = [] then None
        else if max_sharpe_portfolio st = None
        then Some (portfolio_of_row (columns df) (efficient_frontier st ! 0))
        else max_sharpe_portfolio st)"
  have ne: "efficient_frontier st \<noteq> []" using assms(3) fr by simp
  have rows: "\<And>j. j < length (efficient_frontier st) \<Longrightarrow>
      fr_sharpe (efficient_frontier st ! j) = NInf \<or>
      (\<exists>v. fr_sharpe (efficient_frontier st ! j) = Fin v)"
    using tracking_inv_rows [OF inv] by blast
  show ?thesis
  proof (cases "max_sharpe_portfolio st")
    case None
    then have all: "\<forall>row\<in>set (efficient_frontier st). fr_sharpe row = NInf"
      using inv unfolding tracking_inv_def Let_def by simp
    have "0 < length (efficient_frontier st)" using ne by simp
    moreover have "res_max_sharpe_portfolio res =
        Some (portfolio_of_row (columns df) (efficient_frontier st ! 0))"
      using ms ne None by simp
    moreover have "\<forall>j<length (efficient_frontier st).
        fr_sharpe (efficient_frontier st ! j) = NInf"
      using all by simp
    ultimately show ?thesis unfolding fr
      by (intro exI [of _ 0]) simp
  next
    case (Some p)
    then obtain i where i: "i < length (efficient_frontier st)"
      "p = portfolio_of_row (columns df) (efficient_frontier st ! i)"
      "\<forall>j<length (efficient_frontier st).
          \<not> nf_less (fr_sharpe (efficient_frontier st ! i)) (fr_sharpe (efficient_frontier st ! j))"
      "\<forall>j<i. nf_less (fr_sharpe (efficient_frontier st ! j)) (fr_sharpe (efficient_frontier st ! i))"
      using inv unfolding tracking_inv_def Let_def by auto
    have "res_max_sharpe_portfolio res =
        Some (portfolio_of_row (columns df) (efficient_frontier st ! i))"
      using ms ne Some i(2) by simp
    then show ?thesis unfolding fr using i(1,3,4) rows
      by (intro exI [of _ i]) simp
  qed
qed


text \<open>
  C9. A call on a table that passes the input check, if it returns at all, returns a
  result; with an empty frontier both distinguished portfolios are absent, with a
  non-empty frontier both are present (the scan after the sweep fills in the
  max-Sharpe portfolio when nothing was tracked).
\<close>

theorem absent_iff_empty_frontier:
  assumes "optimize_portfolio solve df rf wb = Inr out"
    "2 \<le> length (observations df)" "columns df \<noteq> []"
  shows "\<exists>res. returned out = Some res \<and>
           (res_efficient_frontier res = [] \<longrightarrow>
              res_max_sharpe_portfolio res = None \<and> res_min_variance_portfolio res = None) \<and>
           (res_efficient_frontier res \<noteq> [] \<longrightarrow>
              res_max_sharpe_portfolio res \<noteq> None \<and> res_min_variance_portfolio res \<noteq> None)"
proof -
  have suff: "\<not> insufficient_data df"
    using assms(2,3) by (auto simp: insufficient_data_def df_empty_def df_len_def)
  show ?thesis
  proof (rule optimize_result [OF assms(1) suff])
    fix bnd st res
    assume r: "returned out = Some res"
      and fr: "res_efficient_frontier res = efficient_frontier st"
      and ms: "res_max_sharpe_portfolio res =
         (if efficient_frontier st = [] then None
          else if max_sharpe_portfolio st = None
          then Some (portfolio_of_row (columns df) (efficient_frontier st ! 0))
          else max_sharpe_portfolio st)"
      and mv: "res_min_variance_portfolio res =
         (if efficient_frontier st = [] then None
          else Some (portfolio_of_row (columns df)
                 (efficient_frontier st ! idxmin (map fr_risk (efficient_frontier st)))))"
    have a: "res_efficient_frontier res = [] \<longrightarrow>
                res_max_sharpe_portfolio res = None \<and> res_min_variance_portfolio res = None"
      using ms mv fr by simp
    have b: "res_efficient_frontier res \<noteq> [] \<longrightarrow>
                res_max_sharpe_portfolio res \<noteq> None \<and> res_min_variance_portfolio res \<noteq> None"
      using ms mv fr by (cases "max_sharpe_portfolio st") simp_all
    show ?thesis
      by (rule exI [of _ res]) (use r a b in blast)
  qed
qed

lemma optimize_total:
  assumes suff: "\<not> insufficient_data df"
    and wl: "weight_limits wb (length (df_mean df)) = Inr bnd"
    and ok: "raises_only_ValueError solve"
  shows "\<exists>out res. optimize_portfolio solve df rf wb = Inr out \<and> returned out = Some res \<and>
           printed out = warnings bnd"
proof -
  obtain st where sw: "sweep solve (columns df) (df_mean df) (df_cov df) bnd rf
       (target_returns (df_mean df)) initial_state = Inr st"
    using sweep_total [OF ok] by blast
  have inv: "tracking_inv (columns df) st"
    using sweep_inv [OF initial_inv length_df_mean sw] .
  show ?thesis
    using sw assemble_result_Inr [OF inv, of "warnings bnd"]
    by (simp add: optimize_unfold [OF suff] wl)
qed



lemma optimize_frontier:
  assumes "optimize_portfolio solve df rf wb = Inr out" "returned out = Some res"
    and wl: "weight_limits wb (length (df_mean df)) = Inr bnd"
  shows "res_efficient_frontier res =
           List.map_filter (point_for solve (columns df) (df_mean df) (df_cov df) bnd rf)
             (target_returns (df_mean df))"
proof (rule optimize_returned [OF assms(1,2)])
  fix bnd' st
  assume a: "weight_limits wb (length (df_mean df)) = Inr bnd'"
    and sw: "sweep solve (columns df) (df_mean df) (df_cov df) bnd' rf
       (target_returns (df_mean df)) initial_state = Inr st"
    and fr: "res_efficient_frontier res = efficient_frontier st"
  have "bnd' = bnd" using a wl by simp
  then show ?thesis using sweep_frontier [OF sw] fr by (simp add: initial_state_def)
qed

lemma length_linspace: "length (linspace a b n) = n"
  by (simp add: linspace_def)

lemma length_target_returns: "length (target_returns mu) = 100"
  by (simp add: target_returns_def Let_def length_linspace)




lemma sufficient_iff:
  "\<not> insufficient_data df \<longleftrightarrow> 2 \<le> length (observations df) \<and> columns df \<noteq> []"
  by (auto simp: insufficient_data_def df_empty_def df_len_def)


text \<open>
  C5. On a table of fewer than two rows (or of no column) the optimizer prints the
  diagnostic and returns \<open>None\<close>: no frontier, no portfolio.
\<close>

theorem too_few_rows_no_result:
  assumes "length (observations df) < 2 \<or> columns df = []"
  shows "optimize_portfolio solve df rf wb =
           Inr \<lparr>printed = [''Error: Not enough data for portfolio optimization.''],
                returned = None\<rparr>"
proof -
  have "insufficient_data df"
    using assms by (auto simp: insufficient_data_def df_empty_def df_len_def)
  then show ?thesis by (rule optimize_insufficient)
qed

theorem too_few_rows_no_result_witness:
  "optimize_portfolio (\<lambda>p. Raises ValueError) \<lparr>columns = [''a''], observations = [[1]]\<rparr> 0 (BTuple [0, 1]) =
     Inr \<lparr>printed = [''Error: Not enough data for portfolio optimization.''], returned = None\<rparr>"
  by (rule too_few_rows_no_result) simp

lemma target_qp_bounds:
  assumes "min_weights bnd = min_weights bnd'" "max_weights bnd = max_weights bnd'"
  shows "target_qp sigma mu bnd r = target_qp sigma mu bnd' r"
  using assms by (simp add: target_qp_def)

lemma sweep_bounds:
  assumes "min_weights bnd = min_weights bnd'" "max_weights bnd = max_weights bnd'"
  shows "sweep solve cols mu sigma bnd rf ts st = sweep solve cols mu sigma bnd' rf ts st"
proof (induction ts arbitrary: st)
  case Nil
  show ?case by simp
next
  case (Cons r ts)
  have "solve_target solve cols mu sigma bnd rf r st = solve_target solve cols mu sigma bnd' rf r st"
    by (simp add: solve_target_def target_qp_bounds [OF assms])
  then show ?case by (simp add: Cons.IH split: sum.splits)
qed

lemma malformed_default:
  assumes "malformed_bounds wb n"
  shows "weight_limits wb n = Inr (default_limits n)"
  using assms by (cases wb) simp_all

lemma assemble_result_printed:
  "assemble_result cols w st =
     (case assemble_result cols [] st of Inl e \<Rightarrow> Inl e | Inr out \<Rightarrow> Inr (out\<lparr>printed := w\<rparr>))"
  by (simp add: assemble_result_def Let_def split: sum.splits)

lemma assemble_result_printed_nil:
  "assemble_result cols [] st = Inr out \<Longrightarrow> printed out = []"
  by (auto simp: assemble_result_def Let_def split: sum.splits if_splits)

text \<open>
  C7. On a table that passes the input check, bounds that are neither a pair nor a
  list of one element per asset give the limits 0 and 1 for every asset and the
  warning; the call then does exactly what the call with bounds \<open>(0, 1)\<close> does (the
  same exception, or the same result), but for the printed warning.
\<close>

theorem malformed_bounds_fall_back:
  assumes "malformed_bounds wb (length (columns df))"
    and "2 \<le> length (observations df)" "columns df \<noteq> []"
  shows "(\<exists>bnd. weight_limits wb (length (columns df)) = Inr bnd \<and>
            min_weights bnd = replicate (length (columns df)) 0 \<and>
            max_weights bnd = replicate (length (columns df)) 1 \<and>
            warnings bnd =
              [''Warning: Invalid weight_bounds format. Using default (0.0, 1.0) for all assets.'']) \<and>
         (case optimize_portfolio solve df rf (BTuple [0, 1]) of
            Inl e \<Rightarrow> optimize_portfolio solve df rf wb = Inl e
          | Inr out \<Rightarrow>
              printed out = [] \<and>
              optimize_portfolio solve df rf wb =
                Inr (out\<lparr>printed :=
                  [''Warning: Invalid weight_bounds format. Using default (0.0, 1.0) for all assets.'']\<rparr>))"
proof -
  let ?n = "length (columns df)"
  let ?b = "\<lparr>warnings = [], min_weights = replicate ?n 0, max_weights = replicate ?n 1\<rparr>"
  let ?sw = "sweep solve (columns df) (df_mean df) (df_cov df) ?b rf
               (target_returns (df_mean df)) initial_state"
  have suff: "\<not> insufficient_data df" using assms(2,3) by (simp add: sufficient_iff)
  have wl: "weight_limits wb ?n = Inr (default_limits ?n)"
    using assms(1) by (rule malformed_default)
  have wl0: "weight_limits (BTuple [0, 1]) ?n = Inr ?b" by simp
  have sw: "sweep solve (columns df) (df_mean df) (df_cov df) (default_limits ?n) rf
               (target_returns (df_mean df)) initial_state = ?sw"
    by (rule sweep_bounds) (simp_all add: default_limits_def)
  have bad: "optimize_portfolio solve df rf wb =
      (case ?sw of Inl e \<Rightarrow> Inl e
       | Inr st \<Rightarrow> assemble_result (columns df) (warnings (default_limits ?n)) st)"
    using sw by (simp add: optimize_unfold [OF suff] length_df_mean wl)
  have good: "optimize_portfolio solve df rf (BTuple [0, 1]) =
      (case ?sw of Inl e \<Rightarrow> Inl e | Inr st \<Rightarrow> assemble_result (columns df) [] st)"
    by (simp add: optimize_unfold [OF suff] length_df_mean split: sum.splits)
  have first: "\<exists>bnd. weight_limits wb ?n = Inr bnd \<and>
            min_weights bnd = replicate ?n 0 \<and> max_weights bnd = replicate ?n 1 \<and>
            warnings bnd =
              [''Warning: Invalid weight_bounds format. Using default (0.0, 1.0) for all assets.'']"
    using wl by (simp add: default_limits_def)
  have second: "case optimize_portfolio solve df rf (BTuple [0, 1]) of
            Inl e \<Rightarrow> optimize_portfolio solve df rf wb = Inl e
          | Inr out \<Rightarrow>
              printed out = [] \<and>
              optimize_portfolio solve df rf wb =
                Inr (out\<lparr>printed :=
                  [''Warning: Invalid weight_bounds format. Using default (0.0, 1.0) for all assets.'']\<rparr>)"
  proof (cases ?sw)
    case (Inl e)
    then show ?thesis unfolding bad good by simp
  next
    case (Inr st)
    show ?thesis
    proof (cases "assemble_result (columns df) [] st")
      case (Inl e)
      then show ?thesis
        unfolding bad good Inr
        using assemble_result_printed [of "columns df" "warnings (default_limits ?n)" st]
        by simp
    next
      case r: (Inr out)
      then show ?thesis
        unfolding bad good Inr
        using assemble_result_printed [of "columns df" "warnings (default_limits ?n)" st]
          assemble_result_printed_nil [OF r]
        by (simp add: default_limits_def)
    qed
  qed
  from first second show ?thesis by (rule conjI)
qed

subsection \<open>The example call\<close>

lemma two_asset_sufficient: "\<not> insufficient_data two_asset_table"
  by (simp add: sufficient_iff two_asset_table_def)

lemma two_asset_columns: "columns two_asset_table = [''A'', ''B'']"
  by (simp add: two_asset_table_def)

lemma two_asset_limits:
  "weight_limits (BTuple [0, 1]) (length (df_mean two_asset_table)) =
     Inr \<lparr>warnings = [], min_weights = [0, 0], max_weights = [1, 1]\<rparr>"
  by (simp add: length_df_mean two_asset_columns numeral_2_eq_2)

lemma equal_split_ok: "raises_only_ValueError equal_split_solver"
  by (simp add: raises_only_ValueError_def equal_split_solver_def)

lemma infeasible_ok: "raises_only_ValueError infeasible_solver"
  by (simp add: raises_only_ValueError_def infeasible_solver_def)

lemma map_filter_all_Some:
  assumes "\<And>x. x \<in> set xs \<Longrightarrow> f x = Some (g x)"
  shows "List.map_filter f xs = map g xs"
  using assms by (induction xs) (simp_all add: List.map_filter_simps)

lemma map_filter_all_None:
  assumes "\<And>x. f x = None"
  shows "List.map_filter f xs = []"
  using assms by (induction xs) (simp_all add: List.map_filter_simps)

lemma equal_split_call:
  "\<exists>out res. optimize_portfolio equal_split_solver two_asset_table rf (BTuple [0, 1]) = Inr out \<and>
     returned out = Some res \<and> printed out = [] \<and> res_efficient_frontier res \<noteq> []"
proof -
  from optimize_total [OF two_asset_sufficient two_asset_limits equal_split_ok, of rf]
  obtain out res where
    c: "optimize_portfolio equal_split_solver two_asset_table rf (BTuple [0, 1]) = Inr out"
    and r: "returned out = Some res" and p: "printed out = []"
    by auto
  let ?g = "\<lambda>r::real. frontier_point (columns two_asset_table) (df_mean two_asset_table)
                (df_cov two_asset_table) rf [1 / 2, 1 / 2]"
  have "res_efficient_frontier res = map ?g (target_returns (df_mean two_asset_table))"
    unfolding optimize_frontier [OF c r two_asset_limits]
    by (rule map_filter_all_Some)
       (simp add: point_for_def equal_split_solver_def length_df_mean two_asset_columns)
  then have "length (res_efficient_frontier res) = 100"
    by (simp add: length_target_returns)
  then have "res_efficient_frontier res \<noteq> []" by auto
  with c r p show ?thesis by blast
qed

lemma infeasible_call:
  "\<exists>out res. optimize_portfolio infeasible_solver two_asset_table rf (BTuple [0, 1]) = Inr out \<and>
     returned out = Some res \<and> res_efficient_frontier res = []"
proof -
  from optimize_total [OF two_asset_sufficient two_asset_limits infeasible_ok, of rf]
  obtain out res where
    c: "optimize_portfolio infeasible_solver two_asset_table rf (BTuple [0, 1]) = Inr out"
    and r: "returned out = Some res"
    by auto
  have "res_efficient_frontier res = []"
    unfolding optimize_frontier [OF c r two_asset_limits]
    by (rule map_filter_all_None) (simp add: point_for_def infeasible_solver_def)
  with c r show ?thesis by blast
qed

theorem max_sharpe_is_first_largest_witness:
  "\<exists>out res i. optimize_portfolio equal_split_solver two_asset_table 0 (BTuple [0, 1]) = Inr out \<and>
     returned out = Some res \<and> res_efficient_frontier res \<noteq> [] \<and>
     i < length (res_efficient_frontier res) \<and>
     res_max_sharpe_portfolio res =
       Some (portfolio_of_row (columns two_asset_table) (res_efficient_frontier res ! i))"
proof -
  from equal_split_call [of 0] obtain out res where
    c: "optimize_portfolio equal_split_solver two_asset_table 0 (BTuple [0, 1]) = Inr out"
    and r: "returned out = Some res" and n: "res_efficient_frontier res \<noteq> []"
    by auto
  from max_sharpe_is_first_largest [OF c r n] obtain i where
    "i < length (res_efficient_frontier res)"
    "res_max_sharpe_portfolio res =
       Some (portfolio_of_row (columns two_asset_table) (res_efficient_frontier res ! i))"
    by auto
  with c r n show ?thesis by blast
qed


theorem absent_iff_empty_frontier_witness:
  "(\<exists>out res. optimize_portfolio equal_split_solver two_asset_table 0 (BTuple [0, 1]) = Inr out \<and>
      returned out = Some res \<and> res_efficient_frontier res \<noteq> [] \<and>
      res_max_sharpe_portfolio res \<noteq> None \<and> res_min_variance_portfolio res \<noteq> None) \<and>
   (\<exists>out res. optimize_portfolio infeasible_solver two_asset_table 0 (BTuple [0, 1]) = Inr out \<and>
      returned out = Some res \<and> res_efficient_frontier res = [] \<and>
      res_max_sharpe_portfolio res = None \<and> res_min_variance_portfolio res = None)"
proof -
  have rows: "2 \<le> length (observations two_asset_table)" and cols: "columns two_asset_table \<noteq> []"
    by (simp_all add: two_asset_table_def)
  from equal_split_call [of 0] obtain out res where
    c: "optimize_portfolio equal_split_solver two_asset_table 0 (BTuple [0, 1]) = Inr out"
    and r: "returned out = Some res" and n: "res_efficient_frontier res \<noteq> []"
    by auto
  from absent_iff_empty_frontier [OF c rows cols] r n
  have a: "res_max_sharpe_portfolio res \<noteq> None \<and> res_min_variance_portfolio res \<noteq> None"
    by auto
  from infeasible_call [of 0] obtain out' res' where
    c': "optimize_portfolio infeasible_solver two_asset_table 0 (BTuple [0, 1]) = Inr out'"
    and r': "returned out' = Some res'" and n': "res_efficient_frontier res' = []"
    by auto
  from absent_iff_empty_frontier [OF c' rows cols] r' n'
  have b: "res_max_sharpe_portfolio res' = None \<and> res_min_variance_portfolio res' = None"
    by auto
  from c r n a c' r' n' b show ?thesis by blast
qed



theorem malformed_bounds_fall_back_witness:
  "\<exists>out. optimize_portfolio equal_split_solver two_asset_table 0 (BTuple [0, 1 / 2, 1]) = Inr out \<and>
     printed out =
       [''Warning: Invalid weight_bounds format. Using default (0.0, 1.0) for all assets.''] \<and>
     returned out \<noteq> None"
proof -
  have rows: "2 \<le> length (observations two_asset_table)" and cols: "columns two_asset_table \<noteq> []"
    by (simp_all add: two_asset_table_def)
  have m: "malformed_bounds (BTuple [0, 1 / 2, 1]) (length (columns two_asset_table))" by simp
  from equal_split_call [of 0] obtain out res where
    c: "optimize_portfolio equal_split_solver two_asset_table 0 (BTuple [0, 1]) = Inr out"
    and r: "returned out = Some res"
    by auto
  from malformed_bounds_fall_back [OF m rows cols, of equal_split_solver 0]
  have "optimize_portfolio equal_split_solver two_asset_table 0 (BTuple [0, 1 / 2, 1]) =
      Inr (out\<lparr>printed :=
        [''Warning: Invalid weight_bounds format. Using default (0.0, 1.0) for all assets.'']\<rparr>)"
    unfolding c by simp
  then show ?thesis using r by simp
qed

section \<open>The generator: the output table\<close>

lemma weight_name_inj: "a @ ''Weight'' = b @ ''Weight'' \<longleftrightarrow> a = b"
  by simp

lemma weight_name_not_Returns: "a @ ''Weight'' \<noteq> ''Returns''"
proof
  assume "a @ ''Weight'' = ''Returns''"
  then have "last (a @ ''Weight'') = last ''Returns''" by (rule arg_cong)
  then show False by simp
qed

lemma weight_name_not_Volatility: "a @ ''Weight'' \<noteq> ''Volatility''"
proof
  assume "a @ ''Weight'' = ''Volatility''"
  then have "last (a @ ''Weight'') = last ''Volatility''" by (rule arg_cong)
  then show False by simp
qed

lemma add_weight_columns_distinct:
  assumes "sw \<noteq> []" "distinct names"
  shows "\<exists>P'. add_weight_columns sw (enumerate m names) P = Inr P' \<and>
           (\<forall>i<length names. P' (names ! i @ ''Weight'') = Some (map (\<lambda>w. w ! (m + i)) sw)) \<and>
           (\<forall>c. c \<notin> (\<lambda>a. a @ ''Weight'') ` set names \<longrightarrow> P' c = P c)"
  using assms(2)
proof (induction names arbitrary: m P)
  case Nil
  show ?case by simp
next
  case (Cons a rest)
  let ?P1 = "P(a @ ''Weight'' \<mapsto> map (\<lambda>w. w ! m) sw)"
  from Cons.prems have d: "distinct rest" and na: "a \<notin> set rest" by simp_all
  from Cons.IH [OF d, of "Suc m" ?P1] obtain P' where
    r: "add_weight_columns sw (enumerate (Suc m) rest) ?P1 = Inr P'"
    and w: "\<forall>i<length rest. P' (rest ! i @ ''Weight'') = Some (map (\<lambda>w. w ! (Suc m + i)) sw)"
    and o: "\<forall>c. c \<notin> (\<lambda>a. a @ ''Weight'') ` set rest \<longrightarrow> P' c = ?P1 c"
    by blast
  have r': "add_weight_columns sw (enumerate m (a # rest)) P = Inr P'"
    using r assms(1) by simp
  have notin: "a @ ''Weight'' \<notin> (\<lambda>a. a @ ''Weight'') ` set rest"
    using na by auto
  have w': "\<forall>i<length (a # rest). P' ((a # rest) ! i @ ''Weight'') = Some (map (\<lambda>w. w ! (m + i)) sw)"
  proof (intro allI impI)
    fix i assume i: "i < length (a # rest)"
    show "P' ((a # rest) ! i @ ''Weight'') = Some (map (\<lambda>w. w ! (m + i)) sw)"
    proof (cases i)
      case 0
      then show ?thesis using o notin by simp
    next
      case (Suc j)
      then show ?thesis using w i by simp
    qed
  qed
  have o': "\<forall>c. c \<notin> (\<lambda>a. a @ ''Weight'') ` set (a # rest) \<longrightarrow> P' c = P c"
    using o by auto
  from r' w' o' show ?case by blast
qed

lemma length_asset_names: "length (asset_names er) = length (er_values er)"
  by (cases er) simp_all

lemma length_normalize_weights: "length (normalize_weights lib us) = length us"
  by (simp add: normalize_weights_def)

lemma length_draw_of: "length (draw_of rng k t) = k"
  by (simp add: draw_of_def random_draw_def)

lemma sampling_loop_start:
  "sampling_loop lib rng er cov m 0
     \<lparr>port_returns = [], port_volatility = [], stock_weights = []\<rparr> =
     \<lparr>port_returns =
        map (\<lambda>t. portfolio_returns lib (normalize_weights lib (draw_of rng (length er) t)) er)
          [0..<m],
      port_volatility =
        map (\<lambda>t. portfolio_volatility lib (normalize_weights lib (draw_of rng (length er) t)) cov)
          [0..<m],
      stock_weights = map (\<lambda>t. normalize_weights lib (draw_of rng (length er) t)) [0..<m]\<rparr>"
  by (simp add: sampling_loop_gen draw_of_def)

text \<open>
  The table of a call with matching dimensions, at least one requested portfolio and
  pairwise distinct asset labels: the columns \<open>Returns\<close>, \<open>Volatility\<close> and one
  \<open><asset>Weight\<close> per asset in input order, each of \<open>n\<close> entries, and in row \<open>t\<close> the
  return, the volatility and the weights of the \<open>t\<close>-th draw.
\<close>

lemma return_portfolios_table:
  assumes shape: "shape cov = [k, k]" and k: "k = length (er_values er)"
    and n: "1 \<le> n" and dist: "distinct (asset_names er)"
  shows "\<exists>tbl. return_portfolios lib rng er cov n = Inr tbl \<and>
     map fst tbl = ''Returns'' # ''Volatility'' # map (\<lambda>a. a @ ''Weight'') (asset_names er) \<and>
     (\<forall>c\<in>set tbl. length (snd c) = nat n) \<and>
     (\<forall>t<nat n. table_row tbl t =
        portfolio_returns lib (normalize_weights lib (draw_of rng k t)) (er_values er) #
        portfolio_volatility lib (normalize_weights lib (draw_of rng k t)) cov #
        normalize_weights lib (draw_of rng k t))"
proof -
  define names where "names = asset_names er"
  define W where "W = (\<lambda>t. normalize_weights lib (draw_of rng k t))"
  define rs where "rs = map (\<lambda>t. portfolio_returns lib (W t) (er_values er)) [0..<nat n]"
  define vs where "vs = map (\<lambda>t. portfolio_volatility lib (W t) cov) [0..<nat n]"
  define sw where "sw = map W [0..<nat n]"
  define P where "P = [''Returns'' \<mapsto> rs, ''Volatility'' \<mapsto> vs]"
  have lenW: "\<And>t. length (W t) = k"
    by (simp add: W_def length_normalize_weights length_draw_of)
  have lnames: "length names = k" by (simp add: names_def length_asset_names k)
  have loop: "sampling_loop lib rng (er_values er) cov (nat n) 0
      \<lparr>port_returns = [], port_volatility = [], stock_weights = []\<rparr> =
      \<lparr>port_returns = rs, port_volatility = vs, stock_weights = sw\<rparr>"
    unfolding sampling_loop_start rs_def vs_def sw_def W_def k ..
  have swne: "sw \<noteq> []" using n by (simp add: sw_def)
  from add_weight_columns_distinct [OF swne dist [folded names_def], of 0 P] obtain P' where
    awc: "add_weight_columns sw (enumerate 0 names) P = Inr P'"
    and wcol: "\<forall>i<length names. P' (names ! i @ ''Weight'') = Some (map (\<lambda>w. w ! (0 + i)) sw)"
    and other: "\<forall>c. c \<notin> (\<lambda>a. a @ ''Weight'') ` set names \<longrightarrow> P' c = P c"
    by blast
  have nr: "''Returns'' \<notin> (\<lambda>a. a @ ''Weight'') ` set names"
  proof
    assume "''Returns'' \<in> (\<lambda>a. a @ ''Weight'') ` set names"
    then obtain a where e: "''Returns'' = a @ ''Weight''" by (rule imageE)
    show False using weight_name_not_Returns [of a] e [symmetric] by (rule notE)
  qed
  have nv: "''Volatility'' \<notin> (\<lambda>a. a @ ''Weight'') ` set names"
  proof
    assume "''Volatility'' \<in> (\<lambda>a. a @ ''Weight'') ` set names"
    then obtain a where e: "''Volatility'' = a @ ''Weight''" by (rule imageE)
    show False using weight_name_not_Volatility [of a] e [symmetric] by (rule notE)
  qed
  have "P' ''Returns'' = P ''Returns''" using other nr by blast
  then have pr: "P' ''Returns'' = Some rs" by (simp add: P_def)
  have "P' ''Volatility'' = P ''Volatility''" using other nv by blast
  then have pv: "P' ''Volatility'' = Some vs" by (simp add: P_def)
  define wcols where "wcols = map (\<lambda>i. (names ! i @ ''Weight'', map (\<lambda>w. w ! i) sw)) [0..<k]"
  have wc: "map (\<lambda>c. (c, the (P' c))) (map (\<lambda>a. a @ ''Weight'') names) = wcols"
    unfolding wcols_def using wcol lnames
    by (intro nth_equalityI) simp_all
  define tbl where "tbl = (''Returns'', rs) # (''Volatility'', vs) # wcols"
  have call: "return_portfolios lib rng er cov n = Inr tbl"
    unfolding return_portfolios_def Let_def
    using shape k loop awc pr pv wc
    by (simp add: names_def [symmetric] P_def [symmetric] tbl_def)
  have fsts: "map fst tbl = ''Returns'' # ''Volatility'' # map (\<lambda>a. a @ ''Weight'') names"
    unfolding tbl_def wcols_def using lnames
    by (simp add: comp_def) (intro nth_equalityI, simp_all)
  have lens: "\<forall>c\<in>set tbl. length (snd c) = nat n"
    by (auto simp: tbl_def wcols_def rs_def vs_def sw_def)
  have rows: "\<forall>t<nat n. table_row tbl t =
        portfolio_returns lib (W t) (er_values er) # portfolio_volatility lib (W t) cov # W t"
  proof (intro allI impI)
    fix t assume t: "t < nat n"
    have "map (\<lambda>(c, col). col ! t) wcols = map (\<lambda>i. W t ! i) [0..<k]"
      using t by (simp add: wcols_def sw_def comp_def)
    also have "\<dots> = W t" using lenW [of t] by (metis map_nth)
    finally have "map (\<lambda>(c, col). col ! t) wcols = W t" .
    then show "table_row tbl t =
        portfolio_returns lib (W t) (er_values er) # portfolio_volatility lib (W t) cov # W t"
      using t by (simp add: table_row_def tbl_def rs_def vs_def)
  qed
  note f = call fsts [unfolded names_def] lens rows [unfolded W_def]
  show ?thesis by (rule exI [of _ tbl]) (rule conjI f)+
qed

lemma str_nat_nonempty: "str_nat n \<noteq> []"
  by (subst str_nat.simps) simp

lemma digit_char_inj:
  assumes "a < 10" "b < 10" "char_of (48 + a) = char_of (48 + (b::nat))"
  shows "a = b"
proof -
  have "(48 + a) mod 256 = (48 + b) mod 256"
    using assms(3) by (simp only: char_of_quasi_inj)
  then show ?thesis using assms(1,2) by simp
qed

lemma str_nat_inj: "str_nat n = str_nat m \<Longrightarrow> n = m"
proof (induction n arbitrary: m rule: str_nat.induct)
  case (1 n)
  show ?case
  proof (cases "n < 10")
    case True
    then have sn: "str_nat n = [char_of (48 + n)]" by (subst str_nat.simps) simp
    show ?thesis
    proof (cases "m < 10")
      case m: True
      then have "str_nat m = [char_of (48 + m)]" by (subst str_nat.simps) simp
      with sn "1.prems" have "char_of (48 + n) = char_of (48 + m)" by simp
      with True m show ?thesis by (rule digit_char_inj)
    next
      case False
      then have "str_nat m = str_nat (m div 10) @ [char_of (48 + m mod 10)]"
        by (subst str_nat.simps) simp
      with sn "1.prems" have "str_nat (m div 10) = []" by simp
      with str_nat_nonempty show ?thesis by blast
    qed
  next
    case False
    then have sn: "str_nat n = str_nat (n div 10) @ [char_of (48 + n mod 10)]"
      by (subst str_nat.simps) simp
    show ?thesis
    proof (cases "m < 10")
      case True
      then have "str_nat m = [char_of (48 + m)]" by (subst str_nat.simps) simp
      with sn "1.prems" have "str_nat (n div 10) = []" by simp
      with str_nat_nonempty show ?thesis by blast
    next
      case m: False
      then have "str_nat m = str_nat (m div 10) @ [char_of (48 + m mod 10)]"
        by (subst str_nat.simps) simp
      with sn "1.prems" have a: "str_nat (n div 10) = str_nat (m div 10)"
        and b: "char_of (48 + n mod 10) = char_of (48 + m mod 10)" by simp_all
      have "n div 10 = m div 10" using "1.IH" [OF False a] .
      moreover have "n mod 10 = m mod 10"
        using b by (intro digit_char_inj) simp_all
      ultimately show ?thesis by (metis div_mult_mod_eq)
    qed
  qed
qed

lemma distinct_default_names: "distinct (asset_names (Array vs))"
proof -
  have "inj_on (\<lambda>i. ''Asset_'' @ str_nat (i + 1)) (set [0..<length vs])"
    by (rule inj_onI) (auto dest: str_nat_inj)
  then show ?thesis by (simp add: distinct_map)
qed

subsection \<open>Calls on which no such table is returned\<close>

lemma str_nat_one: "str_nat (Suc 0) = ''1''"
  by code_simp

lemma no_sample_call:
  "return_portfolios loop_numpy (\<lambda>i. 1 / 2) (Array [1]) \<lparr>shape = [1, 1], entry = (\<lambda>i j. 1)\<rparr> 0 =
     Inl IndexError"
  by (simp add: return_portfolios_def Let_def)

lemma zero_draw_call:
  "return_portfolios loop_numpy (\<lambda>i. 0) (Array [1]) \<lparr>shape = [1, 1], entry = (\<lambda>i j. 1)\<rparr> 1 =
     Inr [(''Returns'', [NaN]), (''Volatility'', [NaN]), (''Asset_1Weight'', [NaN])]"
  by (simp add: return_portfolios_def Let_def sampling_loop_start draw_of_def random_draw_def
        normalize_weights_def np_div_def portfolio_returns_def portfolio_volatility_def
        loop_numpy_def loop_sum_def loop_dot_def loop_matvec_def fl64_zero str_nat_one)

lemma same_label_call:
  "return_portfolios loop_numpy (\<lambda>i. if i = 0 then 1 / 4 else 3 / 4)
       (Series [(''A'', 1), (''A'', 2)]) \<lparr>shape = [2, 2], entry = (\<lambda>i j. 0)\<rparr> 1 =
     Inr [(''Returns'', [Fin (7 / 4)]), (''Volatility'', [Fin 0]),
          (''AWeight'', [Fin (3 / 4)]), (''AWeight'', [Fin (3 / 4)])]"
  by (simp add: return_portfolios_def Let_def sampling_loop_start draw_of_def random_draw_def
        normalize_weights_def np_div_def portfolio_returns_def portfolio_volatility_def
        loop_numpy_def loop_sum_def loop_dot_def loop_matvec_def upt_rec numeral_2_eq_2
        fl64_values fl64_zero)

text \<open>
  C4. Three calls with matching dimensions on which the generator does not return the
  table of its docstring (random portfolios with non-negative weights summing to 1,
  one row for each). A count of zero raises \<open>IndexError\<close> at line 70 instead of
  giving a table of no rows. A draw of zeros is divided by its zero sum, so the
  weights, the return and the volatility of the row are \<open>NaN\<close>. Two assets of one
  label give two copies of the last asset's weight column, so the weights of the row
  sum to \<open>3/2\<close>.
\<close>

theorem generator_table_failures:
  "return_portfolios loop_numpy (\<lambda>i. 1 / 2) (Array [1]) \<lparr>shape = [1, 1], entry = (\<lambda>i j. 1)\<rparr> 0 =
     Inl IndexError \<and>
   return_portfolios loop_numpy (\<lambda>i. 0) (Array [1]) \<lparr>shape = [1, 1], entry = (\<lambda>i j. 1)\<rparr> 1 =
     Inr [(''Returns'', [NaN]), (''Volatility'', [NaN]), (''Asset_1Weight'', [NaN])] \<and>
   return_portfolios loop_numpy (\<lambda>i. if i = 0 then 1 / 4 else 3 / 4)
       (Series [(''A'', 1), (''A'', 2)]) \<lparr>shape = [2, 2], entry = (\<lambda>i j. 0)\<rparr> 1 =
     Inr [(''Returns'', [Fin (7 / 4)]), (''Volatility'', [Fin 0]),
          (''AWeight'', [Fin (3 / 4)]), (''AWeight'', [Fin (3 / 4)])]"
  using no_sample_call zero_draw_call same_label_call by (intro conjI)

subsection \<open>A shape mismatch\<close>

text \<open>
  C6. On a covariance matrix whose shape is not \<open>(num_assets, num_assets)\<close> the
  generator produces no table, but it does not report the mismatch either: line 33
  names \<open>sys\<close>, which the module never imports, so the call raises \<open>NameError\<close>
  before the diagnostic is printed and before \<open>None\<close> is returned.
\<close>

theorem mismatch_raises_NameError:
  assumes "shape cov \<noteq> [length (er_values er), length (er_values er)]"
  shows "return_portfolios lib rng er cov n = Inl NameError"
  using assms by (simp add: return_portfolios_def Let_def)

theorem mismatch_raises_NameError_witness:
  "return_portfolios loop_numpy (\<lambda>i. 1 / 2) (Array [1 / 10, 2 / 10])
     \<lparr>shape = [3, 3], entry = (\<lambda>i j. if i = j then 1 else 0)\<rparr> 10 = Inl NameError"
  by (rule mismatch_raises_NameError) simp

section \<open>The optimizer: the frontier points\<close>

lemma sum_list_upt: "sum_list (map f [0..<k]) = (\<Sum>i<k. f i)"
  by (simp add: interv_sum_list_conv_sum_set_nat atLeast0LessThan)

lemma sum_list_rows:
  fixes h :: "'a \<Rightarrow> real"
  shows "sum_list (map h xs) = (\<Sum>t<length xs. h (xs ! t))"
proof -
  have "map h xs = map (\<lambda>t. h (xs ! t)) [0..<length xs]"
    by (intro nth_equalityI) simp_all
  then show ?thesis by (simp only: sum_list_upt)
qed

lemma dot_upt_left:
  assumes "length w = k"
  shows "dot (map f [0..<k]) w = (\<Sum>j<k. f j * w ! j)"
proof -
  have "map2 (*) (map f [0..<k]) w = map (\<lambda>j. f j * w ! j) [0..<k]"
    using assms by (intro nth_equalityI) simp_all
  then show ?thesis by (simp only: dot_def sum_list_upt)
qed

lemma dot_upt_right:
  assumes "length w = k"
  shows "dot w (map g [0..<k]) = (\<Sum>i<k. w ! i * g i)"
proof -
  have "map2 (*) w (map g [0..<k]) = map (\<lambda>i. w ! i * g i) [0..<k]"
    using assms by (intro nth_equalityI) simp_all
  then show ?thesis by (simp only: dot_def sum_list_upt)
qed

lemma quad_form_cov:
  assumes len: "length w = length (columns df)"
  shows "quad_form (df_cov df) w =
           (\<Sum>t<length (observations df).
              (\<Sum>i<length (columns df). w ! i * (observations df ! t ! i - df_mean df ! i))\<^sup>2)
           / (real (df_len df) - 1)"
proof -
  define k where "k = length (columns df)"
  define n where "n = length (observations df)"
  define d where "d = real (df_len df) - 1"
  define A where "A = (\<lambda>t i. observations df ! t ! i - df_mean df ! i)"
  define S where "S = (\<lambda>i j. \<Sum>t<n. A t i * A t j)"
  have cov: "df_cov df = map (\<lambda>i. map (\<lambda>j. S i j / d) [0..<k]) [0..<k]"
    unfolding df_cov_def Let_def k_def [symmetric] d_def [symmetric] S_def A_def n_def
    by (simp only: sum_list_rows)
  have lw: "length w = k" using len by (simp add: k_def)
  have inner: "map (\<lambda>row. dot row w) (df_cov df) = map (\<lambda>i. \<Sum>j<k. S i j / d * w ! j) [0..<k]"
    unfolding cov by (simp add: dot_upt_left [OF lw] comp_def)
  have "quad_form (df_cov df) w = (\<Sum>i<k. w ! i * (\<Sum>j<k. S i j / d * w ! j))"
    unfolding quad_form_def inner by (rule dot_upt_right [OF lw])
  also have "\<dots> = (\<Sum>i<k. \<Sum>j<k. \<Sum>t<n. (w ! i * A t i) * (w ! j * A t j)) / d"
    unfolding S_def
    by (simp add: sum_distrib_left sum_distrib_right sum_divide_distrib mult_ac)
  also have "(\<Sum>i<k. \<Sum>j<k. \<Sum>t<n. (w ! i * A t i) * (w ! j * A t j)) =
             (\<Sum>t<n. \<Sum>i<k. \<Sum>j<k. (w ! i * A t i) * (w ! j * A t j))"
  proof -
    have "(\<Sum>i<k. \<Sum>j<k. \<Sum>t<n. (w ! i * A t i) * (w ! j * A t j)) =
          (\<Sum>i<k. \<Sum>t<n. \<Sum>j<k. (w ! i * A t i) * (w ! j * A t j))"
      by (intro sum.cong refl sum.swap)
    also have "\<dots> = (\<Sum>t<n. \<Sum>i<k. \<Sum>j<k. (w ! i * A t i) * (w ! j * A t j))"
      by (rule sum.swap)
    finally show ?thesis .
  qed
  also have "\<dots> = (\<Sum>t<n. (\<Sum>i<k. w ! i * A t i)\<^sup>2)"
    by (simp add: power2_eq_square sum_product)
  finally show ?thesis
    unfolding A_def k_def n_def d_def .
qed

lemma quad_form_cov_nonneg:
  assumes "length w = length (columns df)" "2 \<le> length (observations df)"
  shows "0 \<le> quad_form (df_cov df) w"
proof -
  have "0 < real (df_len df) - 1" using assms(2) by (simp add: df_len_def)
  moreover have "0 \<le> (\<Sum>t<length (observations df).
      (\<Sum>i<length (columns df). w ! i * (observations df ! t ! i - df_mean df ! i))\<^sup>2)"
    by (intro sum_nonneg) simp
  ultimately show ?thesis
    unfolding quad_form_cov [OF assms(1)] by (intro divide_nonneg_pos)
qed









subsection \<open>The example of whole numbers\<close>










end
